theory Spec2Isabelle
  imports Main "HOL-Library.Sublist" "HOL-Library.AList"
begin

section \<open>JavaScript strings and values\<close>

text \<open>
  Strings of the program are modelled as \<open>string\<close> (lists of characters); the
  development is about ASCII text, which is what git prints for modes, object ids and
  change codes. \<open>startsWith\<close> is \<^const>\<open>prefix\<close>, \<open>endsWith\<close> is \<^const>\<open>suffix\<close>,
  \<open>s.slice(n)\<close> is \<open>drop n s\<close>, \<open>xs.slice(0, -1)\<close> is \<open>butlast xs\<close>.
\<close>

abbreviation NL :: char where "NL \<equiv> CHR 0x0A"
abbreviation TAB :: char where "TAB \<equiv> CHR 0x09"

text \<open>A value that may be \<open>undefined\<close> or \<open>null\<close> where the program expects a string.\<close>

datatype jsval = Undefined | Null | Str string

text \<open>The text a template literal \<open>`${ v }`\<close> produces.\<close>

fun js_to_string :: "jsval \<Rightarrow> string" where
  "js_to_string Undefined = ''undefined''"
| "js_to_string Null = ''null''"
| "js_to_string (Str s) = s"

text \<open>An exception of the program: the \<open>message\<close> of the \<open>Error\<close> object.\<close>

datatype js_error = Error string

fun message :: "js_error \<Rightarrow> string" where
  "message (Error m) = m"

text \<open>\<open>String.prototype.trim\<close>, on ASCII white space.\<close>

definition is_ws :: "char \<Rightarrow> bool" where
  "is_ws c = (c = CHR '' '' \<or> c = TAB \<or> c = NL \<or> c = CHR 0x0B \<or> c = CHR 0x0C \<or> c = CHR 0x0D)"

definition trim :: "string \<Rightarrow> string" where
  "trim s = rev (dropWhile is_ws (rev (dropWhile is_ws s)))"

text \<open>\<open>s.split(c)\<close> for a separator of one character: never returns the empty list.\<close>

fun split_on :: "char \<Rightarrow> string \<Rightarrow> string list" where
  "split_on c [] = [[]]"
| "split_on c (x # xs) =
     (if x = c then [] # split_on c xs
      else (case split_on c xs of
              [] \<Rightarrow> [[x]]
            | w # ws \<Rightarrow> (x # w) # ws))"

text \<open>
  \<open>s.split(sep)\<close> for a separator string: the occurrences of \<open>sep\<close> are found from
  the left and do not overlap. An empty separator splits into single characters.
\<close>

function split_str :: "string \<Rightarrow> string \<Rightarrow> string list" where
  "split_str sep [] = (if sep = [] then [] else [[]])"
| "split_str sep (x # xs) =
     (if sep = [] then map (\<lambda>c. [c]) (x # xs)
      else if prefix sep (x # xs) then [] # split_str sep (drop (length sep) (x # xs))
      else (case split_str sep xs of
              [] \<Rightarrow> [[x]]
            | w # ws \<Rightarrow> (x # w) # ws))"
  by pat_completeness auto
termination
  by (relation "measure (\<lambda>(sep, s). length s)") (auto simp: neq_Nil_conv)

text \<open>\<open>xs.join(sep)\<close>.\<close>

fun join :: "string \<Rightarrow> string list \<Rightarrow> string" where
  "join sep [] = []"
| "join sep [x] = x"
| "join sep (x # y # ys) = x @ sep @ join sep (y # ys)"

text \<open>\<open>s.replace(pat, rep)\<close> with a string pattern: the first occurrence only.\<close>

fun replace_first :: "string \<Rightarrow> string \<Rightarrow> string \<Rightarrow> string" where
  "replace_first pat rep [] = (if pat = [] then rep else [])"
| "replace_first pat rep (x # xs) =
     (if prefix pat (x # xs) then rep @ drop (length pat) (x # xs)
      else x # replace_first pat rep xs)"

text \<open>\<open>xs.findIndex(p)\<close>: \<open>None\<close> stands for \<open>-1\<close>.\<close>

fun findIndex :: "('a \<Rightarrow> bool) \<Rightarrow> 'a list \<Rightarrow> nat option" where
  "findIndex p [] = None"
| "findIndex p (x # xs) =
     (if p x then Some 0 else map_option Suc (findIndex p xs))"

text \<open>\<open>xs[i]\<close>: \<open>undefined\<close> out of range.\<close>

fun nth_opt :: "'a list \<Rightarrow> nat \<Rightarrow> 'a option" where
  "nth_opt [] i = None"
| "nth_opt (x # xs) 0 = Some x"
| "nth_opt (x # xs) (Suc i) = nth_opt xs i"

definition nth_js :: "string list \<Rightarrow> nat \<Rightarrow> jsval" where
  "nth_js xs i = (case nth_opt xs i of None \<Rightarrow> Undefined | Some s \<Rightarrow> Str s)"

section \<open>Running a command\<close>

text \<open>
  \<open>execCmd(command, workingDir, trimResult = true)\<close> resolves to the standard output of
  the command, trimmed unless \<open>trimResult\<close> is false, and rejects when the command fails.
  The command itself is the environment's; its outcome is an argument of the model.
\<close>

definition execCmd :: "(js_error + string) \<Rightarrow> bool \<Rightarrow> js_error + string" where
  "execCmd outcome trimResult =
     (case outcome of
        Inl e \<Rightarrow> Inl e
      | Inr stdout \<Rightarrow> Inr (if trimResult then trim stdout else stdout))"

section \<open>The tree-diff parser\<close>

record tree_diff_entry =
  newMode :: jsval
  previousMode :: jsval
  newBlob :: jsval
  previousBlob :: jsval
  change :: jsval
  path :: jsval

text \<open>
  One line of \<open>git diff-tree\<close>: the leading colon is removed, the first tab becomes a
  space, the line is split at every space, and the first six pieces are destructured
  (a missing piece is \<open>undefined\<close>).
\<close>

definition parseTreeDiffLine :: "string \<Rightarrow> tree_diff_entry" where
  "parseTreeDiffLine line =
     (let splitted =
        split_on (CHR '' '')
          (replace_first [TAB] '' ''
            (if prefix '':'' line then drop 1 line else line))
      in \<lparr> newMode = nth_js splitted 0,
           previousMode = nth_js splitted 1,
           newBlob = nth_js splitted 2,
           previousBlob = nth_js splitted 3,
           change = nth_js splitted 4,
           path = nth_js splitted 5 \<rparr>)"

text \<open>
  \<open>getTreeDiff\<close>, given the outcome of
  \<open>git diff-tree referenceTreeId differenceTreeId -r\<close>.
\<close>

definition getTreeDiff :: "(js_error + string) \<Rightarrow> js_error + tree_diff_entry list" where
  "getTreeDiff outcome =
     (case execCmd outcome True of
        Inl e \<Rightarrow> Inl e
      | Inr output \<Rightarrow> Inr (map parseTreeDiffLine (split_on NL output)))"

section \<open>The unified-diff parser\<close>

text \<open>
  \<open>parseGitDiffOutput\<close>: the dictionary from file path to diff body. A JavaScript
  object is modelled as a map; a later segment with the path of an earlier one
  replaces its body, as the spread \<open>{ ...resultDict, [filePath]: plainDiff }\<close> does.
  \<open>lines[lastHeaderLineIndex - 1]\<close> is \<open>undefined\<close> when the index is 0, and
  \<open>undefined.slice\<close> throws a \<open>TypeError\<close>.
\<close>

definition typeError :: js_error where
  "typeError = Error ''TypeError''"

text \<open>
  The per-file segments: the text, after a newline, is split at every newline followed
  by \<open>diff --git\<close>, and the piece before the first separator is dropped (\<open>slice(1)\<close>).
\<close>

definition diffSegments :: "string \<Rightarrow> string list" where
  "diffSegments string = drop 1 (split_str (NL # ''diff --git'') (NL # string))"

text \<open>
  The body of the reducer for one segment: \<open>Inr None\<close> when the segment is ignored,
  \<open>Inr (Some (filePath, plainDiff))\<close> when it adds an entry.
\<close>

definition parseFileDiff :: "string \<Rightarrow> js_error + (string \<times> string) option" where
  "parseFileDiff fileDiff =
     (let lines = split_on NL fileDiff in
      case findIndex (prefix ''+++'') lines of
        None \<Rightarrow> Inr None
      | Some lastHeaderLineIndex \<Rightarrow>
          (let plainDiff = trim (join [NL] (drop (lastHeaderLineIndex + 1) lines)) in
           if prefix ''+++ b/'' (lines ! lastHeaderLineIndex)
           then Inr (Some (drop 6 (lines ! lastHeaderLineIndex), plainDiff))
           else (case lastHeaderLineIndex of
                   0 \<Rightarrow> Inl typeError
                 | Suc i \<Rightarrow> Inr (Some (drop 6 (lines ! i), plainDiff)))))"

definition diffReducer ::
  "(js_error + (string \<rightharpoonup> string)) \<Rightarrow> string \<Rightarrow> js_error + (string \<rightharpoonup> string)" where
  "diffReducer acc fileDiff =
     (case acc of
        Inl e \<Rightarrow> Inl e
      | Inr resultDict \<Rightarrow>
          (case parseFileDiff fileDiff of
             Inl e \<Rightarrow> Inl e
           | Inr None \<Rightarrow> Inr resultDict
           | Inr (Some (filePath, plainDiff)) \<Rightarrow> Inr (resultDict(filePath \<mapsto> plainDiff))))"

definition parseGitDiffOutput :: "string \<Rightarrow> js_error + (string \<rightharpoonup> string)" where
  "parseGitDiffOutput string = foldl diffReducer (Inr Map.empty) (diffSegments string)"

section \<open>Paths\<close>

text \<open>
  \<open>path.normalize\<close> and \<open>path.join\<close> of the POSIX \<open>path\<close> module, on the segments
  between slashes: empty segments and \<open>.\<close> are dropped, \<open>..\<close> removes the segment
  before it, and is kept at the start of a relative path.
\<close>

fun normalizeSegments :: "bool \<Rightarrow> string list \<Rightarrow> string list \<Rightarrow> string list" where
  "normalizeSegments allowAboveRoot [] res = res"
| "normalizeSegments allowAboveRoot (s # ss) res =
     (if s = [] \<or> s = ''.'' then normalizeSegments allowAboveRoot ss res
      else if s = ''..'' then
        (if res \<noteq> [] \<and> last res \<noteq> ''..''
         then normalizeSegments allowAboveRoot ss (butlast res)
         else if allowAboveRoot then normalizeSegments allowAboveRoot ss (res @ [''..''])
         else normalizeSegments allowAboveRoot ss res)
      else normalizeSegments allowAboveRoot ss (res @ [s]))"

definition path_normalize :: "string \<Rightarrow> string" where
  "path_normalize p =
     (if p = [] then ''.''
      else
        (let isAbsolute = (hd p = CHR ''/'');
             trailingSeparator = (last p = CHR ''/'');
             res = join ''/'' (normalizeSegments (\<not> isAbsolute) (split_on (CHR ''/'') p) [])
         in if res = []
            then (if isAbsolute then ''/'' else if trailingSeparator then ''./'' else ''.'')
            else (if isAbsolute then ''/'' else []) @ res
                   @ (if trailingSeparator then ''/'' else [])))"

definition path_join :: "string \<Rightarrow> string \<Rightarrow> string" where
  "path_join a b =
     (let joined = (if a = [] then b else if b = [] then a else a @ ''/'' @ b)
      in if joined = [] then ''.'' else path_normalize joined)"

text \<open>\<open>addTrailingSlash(str)\<close>.\<close>

definition addTrailingSlash :: "string \<Rightarrow> string" where
  "addTrailingSlash str = (if suffix ''/'' str then str else str @ ''/'')"

section \<open>The file system\<close>

text \<open>
  The file system is a tree: a file with its content, or a directory with its entries in
  the order \<open>readdir\<close> lists them. The root of the tree stands for the working directory
  of the process, which is also taken as the root directory, so that a relative and an
  absolute path with the same segments name the same node. There are no symbolic links
  (\<open>lstat\<close> and \<open>stat\<close> agree), and a path is resolved on its segments.
\<close>

datatype fsnode = File string | Dir "(string \<times> fsnode) list"

definition ioError :: js_error where
  "ioError = Error ''IOError''"

fun resolveSegments :: "string list \<Rightarrow> string list \<Rightarrow> string list" where
  "resolveSegments [] at = at"
| "resolveSegments (s # ss) at =
     (if s = [] \<or> s = ''.'' then resolveSegments ss at
      else if s = ''..'' then resolveSegments ss (butlast at)
      else resolveSegments ss (at @ [s]))"

definition resolve :: "string \<Rightarrow> string list" where
  "resolve p = resolveSegments (split_on (CHR ''/'') p) []"

fun fs_lookup :: "fsnode \<Rightarrow> string list \<Rightarrow> fsnode option" where
  "fs_lookup n [] = Some n"
| "fs_lookup (File c) (s # ss) = None"
| "fs_lookup (Dir es) (s # ss) =
     (case map_of es s of None \<Rightarrow> None | Some n \<Rightarrow> fs_lookup n ss)"

text \<open>\<open>fs.lstatSync(p)\<close>: the node at the path; \<open>None\<close> when the call throws.\<close>

definition lstat :: "fsnode \<Rightarrow> string \<Rightarrow> fsnode option" where
  "lstat fs p = fs_lookup fs (resolve p)"

definition existsSync :: "fsnode \<Rightarrow> string \<Rightarrow> bool" where
  "existsSync fs p = (lstat fs p \<noteq> None)"

text \<open>The tree with the node at a path set, missing directories on the way created.\<close>

fun fs_put :: "fsnode \<Rightarrow> string list \<Rightarrow> fsnode \<Rightarrow> fsnode option" where
  "fs_put n [] new = Some new"
| "fs_put (File c) (s # ss) new = None"
| "fs_put (Dir es) (s # ss) new =
     (case fs_put (case map_of es s of None \<Rightarrow> Dir [] | Some n \<Rightarrow> n) ss new of
        None \<Rightarrow> None
      | Some n' \<Rightarrow> Some (Dir (AList.update s n' es)))"

text \<open>\<open>mkdirs\<close>: fails when a file is in the way.\<close>

fun fs_mkdirs :: "fsnode \<Rightarrow> string list \<Rightarrow> fsnode option" where
  "fs_mkdirs (File c) ss = None"
| "fs_mkdirs (Dir es) [] = Some (Dir es)"
| "fs_mkdirs (Dir es) (s # ss) =
     (case fs_mkdirs (case map_of es s of None \<Rightarrow> Dir [] | Some n \<Rightarrow> n) ss of
        None \<Rightarrow> None
      | Some n' \<Rightarrow> Some (Dir (AList.update s n' es)))"

text \<open>
  \<open>fs.outputFile(dest, content)\<close>: creates the parent directories and writes the file;
  fails on a directory at \<open>dest\<close> and on a file among its parents.
\<close>

definition outputFile :: "fsnode \<Rightarrow> string \<Rightarrow> string \<Rightarrow> js_error + fsnode" where
  "outputFile fs dest content =
     (case lstat fs dest of
        Some (Dir es) \<Rightarrow> Inl ioError
      | _ \<Rightarrow> (case fs_put fs (resolve dest) (File content) of
                None \<Rightarrow> Inl ioError
              | Some fs' \<Rightarrow> Inr fs'))"

text \<open>
  \<open>fs.remove(p)\<close>: removes the file or the directory with all it holds; a path that does
  not exist is not an error, a file among the parents of the path is. The root stays.
\<close>

fun fs_delete :: "fsnode \<Rightarrow> string list \<Rightarrow> fsnode option" where
  "fs_delete n [] = Some n"
| "fs_delete (File c) (s # ss) = None"
| "fs_delete (Dir es) [s] = Some (Dir (AList.delete s es))"
| "fs_delete (Dir es) (s # t # ss) =
     (case map_of es s of
        None \<Rightarrow> Some (Dir es)
      | Some n \<Rightarrow>
          (case fs_delete n (t # ss) of
             None \<Rightarrow> None
           | Some n' \<Rightarrow> Some (Dir (AList.update s n' es))))"

definition fs_remove :: "fsnode \<Rightarrow> string \<Rightarrow> js_error + fsnode" where
  "fs_remove fs p =
     (case fs_delete fs (resolve p) of None \<Rightarrow> Inl ioError | Some fs' \<Rightarrow> Inr fs')"

section \<open>Listing a directory\<close>

text \<open>
  \<open>walk(dir, fileList)\<close>: the entries of \<open>dir\<close> in order; a directory is walked with
  the path \<open>path.join(dir, file)\<close>, a file pushes \<open>path.join(dir, file)\<close>. The entries
  are those of the node \<open>readdir(dir)\<close> lists, and \<open>stat(path.join(dir, file))\<close> is the
  node of the entry.
\<close>

fun walkEntries :: "string \<Rightarrow> (string \<times> fsnode) list \<Rightarrow> string list \<Rightarrow> string list" where
  "walkEntries dir [] fileList = fileList"
| "walkEntries dir ((file, File c) # files) fileList =
     walkEntries dir files (fileList @ [path_join dir file])"
| "walkEntries dir ((file, Dir es) # files) fileList =
     walkEntries dir files (walkEntries (path_join dir file) es fileList)"

definition walk :: "fsnode \<Rightarrow> string \<Rightarrow> js_error + string list" where
  "walk fs dir =
     (case lstat fs dir of
        Some (Dir es) \<Rightarrow> Inr (walkEntries dir es [])
      | _ \<Rightarrow> Inl ioError)"

section \<open>Materializing a file rule\<close>

text \<open>
  The rule of one file or directory. \<open>replace\<close> and \<open>exclude\<close> may be \<open>undefined\<close>
  (\<open>None\<close>); \<open>template\<close> is \<open>None\<close> when it is falsy, and the context of the rendering
  otherwise. The patterns are those of \<open>String.prototype.match\<close>; what a pattern matches
  is the argument \<open>matches\<close> of the model.
\<close>

record ('c, 'p) file_rule =
  template :: "'c option"
  replace :: "bool option"
  exclude :: "string list option"
  excludeFilePatterns :: "'p list"
  includeFilePatterns :: "'p list"
  deleteOrphaned :: bool

text \<open>
  \<open>filterFunc(srcFile, destFile)\<close>. \<open>destFile\<close> is \<open>None\<close> when the function is called
  with one argument: \<open>fs.lstatSync(undefined)\<close> throws, as it does for a path that does
  not exist, and the \<open>catch\<close> returns true.
\<close>

definition filterFunc ::
  "('p \<Rightarrow> string \<Rightarrow> bool) \<Rightarrow> ('c, 'p) file_rule \<Rightarrow> fsnode \<Rightarrow> string \<Rightarrow> string option \<Rightarrow> bool" where
  "filterFunc matches file fs srcFile destFile =
     (let early =
        (if replace file = Some False then
           (case (case destFile of None \<Rightarrow> None | Some d \<Rightarrow> lstat fs d) of
              None \<Rightarrow> Some True
            | Some (Dir es) \<Rightarrow> Some True
            | Some (File c) \<Rightarrow>
                (if (case destFile of None \<Rightarrow> False | Some d \<Rightarrow> existsSync fs d)
                 then Some False else None))
         else None)
      in case early of
           Some b \<Rightarrow> b
         | None \<Rightarrow>
             (let filePath =
                (if suffix ''/'' srcFile then srcFile
                 else join ''/'' (butlast (split_on (CHR ''/'') srcFile)) @ ''/'')
              in if (case exclude file of
                       None \<Rightarrow> False
                     | Some ex \<Rightarrow> filePath \<in> set ex \<or> srcFile \<in> set ex)
                 then False
                 else if list_ex (\<lambda>pattern. matches pattern srcFile) (excludeFilePatterns file)
                 then False
                 else if includeFilePatterns file \<noteq> []
                         \<and> \<not> list_ex (\<lambda>pattern. matches pattern srcFile) (includeFilePatterns file)
                 then False
                 else True))"

text \<open>
  \<open>fs.copy(src, dest, { filter })\<close> of fs-extra. The types of source and destination
  are checked, then the filter decides, then a file is copied over the destination and
  a directory is created if missing and its items are copied in turn, each under
  \<open>path.join(src, item)\<close> and \<open>path.join(dest, item)\<close>. The filter reads the file
  system as it is when it is called.
\<close>

text \<open>
  The check of fs-extra before an item is copied: a directory is not copied over a file,
  nor a file over a directory.
\<close>

definition checkPaths :: "fsnode \<Rightarrow> string \<Rightarrow> fsnode \<Rightarrow> js_error option" where
  "checkPaths srcNode dest fs =
     (case (srcNode, lstat fs dest) of
        (Dir es, Some (File c)) \<Rightarrow> Some ioError
      | (File c, Some (Dir es)) \<Rightarrow> Some ioError
      | _ \<Rightarrow> None)"

fun performCopy ::
    "(fsnode \<Rightarrow> string \<Rightarrow> string option \<Rightarrow> bool) \<Rightarrow> fsnode \<Rightarrow> string \<Rightarrow> string \<Rightarrow> fsnode
      \<Rightarrow> js_error + fsnode"
  and copyDirItems ::
    "(fsnode \<Rightarrow> string \<Rightarrow> string option \<Rightarrow> bool) \<Rightarrow> (string \<times> fsnode) list \<Rightarrow> string \<Rightarrow> string
      \<Rightarrow> fsnode \<Rightarrow> js_error + fsnode" where
  "performCopy flt (File c) src dest fs =
     (case fs_put fs (resolve dest) (File c) of
        None \<Rightarrow> Inl ioError
      | Some fs' \<Rightarrow> Inr fs')"
| "performCopy flt (Dir es) src dest fs =
     (case (if existsSync fs dest then Some fs else fs_mkdirs fs (resolve dest)) of
        None \<Rightarrow> Inl ioError
      | Some fs' \<Rightarrow> copyDirItems flt es src dest fs')"
| "copyDirItems flt [] src dest fs = Inr fs"
| "copyDirItems flt ((item, node) # items) src dest fs =
     (let srcItem = path_join src item; destItem = path_join dest item in
      case checkPaths node destItem fs of
        Some e \<Rightarrow> Inl e
      | None \<Rightarrow>
          (if \<not> flt fs srcItem (Some destItem) then copyDirItems flt items src dest fs
           else (case performCopy flt node srcItem destItem fs of
                   Inl e \<Rightarrow> Inl e
                 | Inr fs' \<Rightarrow> copyDirItems flt items src dest fs')))"

text \<open>
  The entry point: the source must exist, the destination must not be the source or lie
  inside it, and the parent directory of the destination is created.
\<close>

definition fs_copy ::
  "(fsnode \<Rightarrow> string \<Rightarrow> string option \<Rightarrow> bool) \<Rightarrow> string \<Rightarrow> string \<Rightarrow> fsnode \<Rightarrow> js_error + fsnode" where
  "fs_copy flt src dest fs =
     (case lstat fs src of
        None \<Rightarrow> Inl ioError
      | Some srcNode \<Rightarrow>
          (if prefix (resolve src) (resolve dest) then Inl ioError
           else (case checkPaths srcNode dest fs of
                   Some e \<Rightarrow> Inl e
                 | None \<Rightarrow>
                     (if \<not> flt fs src (Some dest) then Inr fs
                      else (case fs_mkdirs fs (butlast (resolve dest)) of
                              None \<Rightarrow> Inl ioError
                            | Some fs' \<Rightarrow> performCopy flt srcNode src dest fs')))))"

text \<open>
  \<open>write(src, dest, context)\<close> (named \<open>write_file\<close> here): \<open>nunjucks.render\<close> reads the template at \<open>src\<close> and
  renders it; the engine is the argument \<open>render\<close>, and a template that is not a file
  of the tree is not found. The result is written with \<open>fs.outputFile\<close>.
\<close>

definition write_file ::
  "('c \<Rightarrow> string \<Rightarrow> js_error + string) \<Rightarrow> string \<Rightarrow> string \<Rightarrow> 'c \<Rightarrow> fsnode \<Rightarrow> js_error + fsnode" where
  "write_file render src dest context fs =
     (case lstat fs src of
        Some (File text) \<Rightarrow>
          (case render context text of
             Inl e \<Rightarrow> Inl e
           | Inr content \<Rightarrow> outputFile fs dest content)
      | _ \<Rightarrow> Inl (Error ''template not found''))"

text \<open>The loop of the template branch over the listing of the source directory.\<close>

fun renderFiles ::
  "('p \<Rightarrow> string \<Rightarrow> bool) \<Rightarrow> ('c \<Rightarrow> string \<Rightarrow> js_error + string) \<Rightarrow> ('c, 'p) file_rule \<Rightarrow> 'c
    \<Rightarrow> string \<Rightarrow> string \<Rightarrow> string list \<Rightarrow> fsnode \<Rightarrow> js_error + fsnode" where
  "renderFiles matches render file context src dest [] fs = Inr fs"
| "renderFiles matches render file context src dest (srcFile # srcFileList) fs =
     (if \<not> filterFunc matches file fs srcFile None
      then renderFiles matches render file context src dest srcFileList fs
      else (let srcPath = path_join src srcFile; destPath = path_join dest srcFile in
            case write_file render srcPath destPath context fs of
              Inl e \<Rightarrow> Inl e
            | Inr fs' \<Rightarrow> renderFiles matches render file context src dest srcFileList fs'))"

text \<open>
  The loop that removes orphaned files. \<open>return\<close> at a listed path that starts with
  \<open>.git\<close> ends the whole function.
\<close>

fun removeOrphaned ::
  "('c, 'p) file_rule \<Rightarrow> string \<Rightarrow> string \<Rightarrow> string list \<Rightarrow> string list \<Rightarrow> fsnode
    \<Rightarrow> js_error + fsnode" where
  "removeOrphaned file src dest srcFileList [] fs = Inr fs"
| "removeOrphaned file src dest srcFileList (destFile # destFileList) fs =
     (if prefix ''.git'' destFile then Inr fs
      else if destFile \<notin> set srcFileList then
        (let filePath = path_join dest destFile in
         if (case exclude file of
               None \<Rightarrow> False
             | Some ex \<Rightarrow> path_join src destFile \<in> set ex)
         then removeOrphaned file src dest srcFileList destFileList fs
         else (case fs_remove fs filePath of
                 Inl e \<Rightarrow> Inl e
               | Inr fs' \<Rightarrow> removeOrphaned file src dest srcFileList destFileList fs'))
      else removeOrphaned file src dest srcFileList destFileList fs)"

text \<open>\<open>copy(src, dest, isDirectory, file)\<close>: the new file system, or the error thrown.\<close>

definition copy ::
  "('p \<Rightarrow> string \<Rightarrow> bool) \<Rightarrow> ('c \<Rightarrow> string \<Rightarrow> js_error + string) \<Rightarrow> string \<Rightarrow> string \<Rightarrow> bool
    \<Rightarrow> ('c, 'p) file_rule \<Rightarrow> fsnode \<Rightarrow> js_error + fsnode" where
  "copy matches render src dest isDirectory file fs =
     (case (case template file of
              Some context \<Rightarrow>
                (if isDirectory then
                   (case walk fs src of
                      Inl e \<Rightarrow> Inl e
                    | Inr srcFileList \<Rightarrow>
                        renderFiles matches render file context src dest srcFileList fs)
                 else write_file render src dest context fs)
            | None \<Rightarrow> fs_copy (filterFunc matches file) src dest fs) of
        Inl e \<Rightarrow> Inl e
      | Inr fs1 \<Rightarrow>
          (if isDirectory \<and> deleteOrphaned file then
             (case walk fs1 src of
                Inl e \<Rightarrow> Inl e
              | Inr srcFileList \<Rightarrow>
                  (case walk fs1 dest of
                     Inl e \<Rightarrow> Inl e
                   | Inr destFileList \<Rightarrow>
                       removeOrphaned file src dest srcFileList destFileList fs1))
           else Inr fs1))"

section \<open>Removing the indentation of a template\<close>

text \<open>
  \<open>dedent(templateStrings, ...values)\<close>. The regular expressions are written out: the
  last string loses a final newline with the indentation after it, every newline
  followed by at least the smallest indentation found loses that many characters of
  indentation, the first string loses a newline at its start, and the strings are put
  together with the values between them.
\<close>

abbreviation CR :: char where "CR \<equiv> CHR 0x0D"

definition isIndent :: "char \<Rightarrow> bool" where
  "isIndent c = (c = TAB \<or> c = CHR '' '')"

definition stripFinalIndent :: "string \<Rightarrow> string" where
  "stripFinalIndent s =
     (case dropWhile isIndent (rev s) of
        [] \<Rightarrow> s
      | c # pre \<Rightarrow>
          (if c = NL
           then (case pre of
                   [] \<Rightarrow> []
                 | d # pre' \<Rightarrow> if d = CR then rev pre' else rev pre)
           else s))"

fun indentSizes :: "string \<Rightarrow> nat list" where
  "indentSizes [] = []"
| "indentSizes (c # cs) =
     (if c = NL \<and> takeWhile isIndent cs \<noteq> []
      then length (takeWhile isIndent cs) # indentSizes cs
      else indentSizes cs)"

fun removeIndent :: "nat \<Rightarrow> nat \<Rightarrow> string \<Rightarrow> string" where
  "removeIndent n k [] = []"
| "removeIndent n k (c # cs) =
     (if 0 < k then removeIndent n (k - 1) cs
      else if c = NL \<and> n \<le> length (takeWhile isIndent cs)
      then NL # removeIndent n n cs
      else c # removeIndent n 0 cs)"

definition stripFirstNewline :: "string \<Rightarrow> string" where
  "stripFirstNewline s =
     (if prefix [CR, NL] s then drop 2 s else if prefix [NL] s then drop 1 s else s)"

fun weave :: "string list \<Rightarrow> string list \<Rightarrow> string" where
  "weave strings [] = []"
| "weave [] (v # values) = v @ ''undefined'' @ weave [] values"
| "weave (s # strings) (v # values) = v @ s @ weave strings values"

definition dedent :: "string list \<Rightarrow> string list \<Rightarrow> string" where
  "dedent templateStrings values =
     (let strings1 = butlast templateStrings @ [stripFinalIndent (last templateStrings)];
          matches = concat (map indentSizes strings1);
          strings2 = (if matches \<noteq> []
                      then map (removeIndent (Min (set matches)) 0) strings1
                      else strings1);
          strings3 = stripFirstNewline (hd strings2) # tl strings2
      in hd strings3 @ weave (tl strings3) values)"

section \<open>The session of one repository and the platform API\<close>

text \<open>
  The configuration (module \<open>config.js\<close>) is an argument of the model.
  \<open>GITHUB_RUN_ID\<close> is the variable of the environment of the process.
\<close>

record config =
  COMMIT_PREFIX :: string
  GITHUB_REPOSITORY :: string
  GITHUB_SERVER_URL :: string
  PR_BODY :: string
  SKIP_PR :: bool
  FORK :: "string option"
  GITHUB_RUN_ID :: "string option"

record pull_request =
  pr_number :: nat
  pr_body :: string

text \<open>An entry of the payload of \<open>createTree\<close>.\<close>

record tree_entry =
  t_path :: jsval
  t_mode :: jsval
  t_type :: string
  t_sha :: jsval

text \<open>\<open>Buffer.from(fileContent).toString('base64')\<close>, kept symbolic.\<close>

datatype base64 = Base64 string

text \<open>
  The requests sent to the platform, with their parameters in the order of the source
  (owner and repo first).
\<close>

datatype api_call =
    CreateBlob string string base64
  | CreateTree string string "tree_entry list" string
  | CreateCommit string string string "string list" string
  | CreateRef string string string string
  | UpdateRef string string string string bool
  | PullsUpdate string string jsval nat string
  | PullsCreate string string jsval string string string

text \<open>
  The platform answers a request, given the requests sent before it, with an error or
  with the \<open>data\<close> of the response: the \<open>sha\<close> of a created object, or the pull
  request.
\<close>

record remote =
  respond :: "api_call list \<Rightarrow> api_call \<Rightarrow> js_error + string"
  respond_pr :: "api_call list \<Rightarrow> api_call \<Rightarrow> js_error + pull_request"

text \<open>The local repository: the outcome of the git commands the replay runs.\<close>

record git_env =
  cat_file :: "string \<Rightarrow> js_error + string"
  diff_tree :: "string \<Rightarrow> string \<Rightarrow> js_error + string"
  log_message :: "string \<Rightarrow> js_error + string"
  log_commits :: "string \<Rightarrow> js_error + string"

text \<open>
  The fields of the \<open>Git\<close> object the functions below use, and the requests sent so
  far (\<open>requests\<close> is not a field of the source: it records the calls of the client).
\<close>

record session =
  repo_user :: string
  repo_name :: string
  prBranch :: string
  baseBranch :: string
  lastCommitSha :: string
  existingPr :: "pull_request option"
  requests :: "api_call list"

text \<open>A request of the client: the answer, and the session with the request recorded.\<close>

definition send :: "remote \<Rightarrow> api_call \<Rightarrow> session \<Rightarrow> (js_error + string) \<times> session" where
  "send api call st = (respond api (requests st) call, st\<lparr>requests := requests st @ [call]\<rparr>)"

definition send_pr :: "remote \<Rightarrow> api_call \<Rightarrow> session \<Rightarrow> (js_error + pull_request) \<times> session" where
  "send_pr api call st =
     (respond_pr api (requests st) call, st\<lparr>requests := requests st @ [call]\<rparr>)"

text \<open>
  \<open>getTreeId\<close>: the headers of the commit are the lines before the first empty line
  (all lines but the last when there is none: \<open>slice(0, -1)\<close>); \<open>find\<close> returns
  \<open>undefined\<close> when no header starts with \<open>tree\<close>, and \<open>replace\<close> on it throws.
\<close>

definition getTreeId :: "git_env \<Rightarrow> string \<Rightarrow> js_error + string" where
  "getTreeId git commitSha =
     (case execCmd (cat_file git commitSha) True of
        Inl e \<Rightarrow> Inl e
      | Inr out \<Rightarrow>
          (let output = split_on NL out;
               commitHeaders =
                 (case findIndex (\<lambda>e. e = []) output of
                    None \<Rightarrow> butlast output
                  | Some i \<Rightarrow> take i output)
           in case find (prefix ''tree'') commitHeaders of
                None \<Rightarrow> Inl typeError
              | Some e \<Rightarrow> Inr (replace_first ''tree '' [] e)))"

definition getCommitMessage :: "git_env \<Rightarrow> string \<Rightarrow> js_error + string" where
  "getCommitMessage git commitSha = execCmd (log_message git commitSha) True"

definition getCommitsToPush :: "git_env \<Rightarrow> session \<Rightarrow> js_error + string list" where
  "getCommitsToPush git st =
     (case execCmd (log_commits git (lastCommitSha st)) True of
        Inl e \<Rightarrow> Inl e
      | Inr output \<Rightarrow> Inr (split_on NL output))"

definition uploadGitHubBlob ::
  "git_env \<Rightarrow> remote \<Rightarrow> jsval \<Rightarrow> session \<Rightarrow> js_error option \<times> session" where
  "uploadGitHubBlob git api blob st =
     (case execCmd (cat_file git (js_to_string blob)) False of
        Inl e \<Rightarrow> (Some e, st)
      | Inr fileContent \<Rightarrow>
          (case send api (CreateBlob (repo_user st) (repo_name st) (Base64 fileContent)) st of
             (Inl e, st') \<Rightarrow> (Some e, st')
           | (Inr d, st') \<Rightarrow> (None, st')))"

text \<open>
  \<open>Promise.all(blobsToCreate.map(...))\<close>: every upload is started, in the order of the
  list; the error is that of the first upload of the list that fails.
\<close>

fun uploadBlobs ::
  "git_env \<Rightarrow> remote \<Rightarrow> jsval list \<Rightarrow> session \<Rightarrow> js_error option \<times> session" where
  "uploadBlobs git api [] st = (None, st)"
| "uploadBlobs git api (blob # blobs) st =
     (case uploadGitHubBlob git api blob st of
        (r, st1) \<Rightarrow>
          (case uploadBlobs git api blobs st1 of
             (rs, st2) \<Rightarrow> ((case r of Some e \<Rightarrow> Some e | None \<Rightarrow> rs), st2)))"

text \<open>
  The mode \<open>'000000'\<close> of an entry that is removed, and the entry of the payload of
  \<open>createTree\<close> for an entry of the diff: the source sets \<open>e.newMode\<close> to the
  previous mode and \<open>e.newBlob\<close> to \<open>null\<close> before it builds the entry.
\<close>

definition deletion :: jsval where
  "deletion = Str ''000000''"

definition treeEntry :: "tree_diff_entry \<Rightarrow> tree_entry" where
  "treeEntry e =
     (if newMode e = deletion
      then \<lparr> t_path = path e, t_mode = previousMode e, t_type = ''blob'', t_sha = Null \<rparr>
      else \<lparr> t_path = path e, t_mode = newMode e, t_type = ''blob'', t_sha = newBlob e \<rparr>)"

text \<open>
  \<open>createGithubCommit(commitSha)\<close>: the error thrown, if any, and the session after
  it. The three git commands of the first \<open>Promise.all\<close> are taken in the order of
  the source.
\<close>

definition createGithubCommit ::
  "git_env \<Rightarrow> remote \<Rightarrow> string \<Rightarrow> session \<Rightarrow> js_error option \<times> session" where
  "createGithubCommit git api commitSha st =
     (case getTreeId git commitSha of
        Inl e \<Rightarrow> (Some e, st)
      | Inr treeId \<Rightarrow>
     (case getTreeId git (commitSha @ ''~1'') of
        Inl e \<Rightarrow> (Some e, st)
      | Inr parentTreeId \<Rightarrow>
     (case getCommitMessage git commitSha of
        Inl e \<Rightarrow> (Some e, st)
      | Inr commitMessage \<Rightarrow>
     (case getTreeDiff (diff_tree git treeId parentTreeId) of
        Inl e \<Rightarrow> (Some e, st)
      | Inr treeDiff \<Rightarrow>
     (let blobsToCreate = filter (\<lambda>e. newMode e \<noteq> deletion) treeDiff in
      case uploadBlobs git api (map newBlob blobsToCreate) st of
        (Some e, st1) \<Rightarrow> (Some e, st1)
      | (None, st1) \<Rightarrow>
     (let tree = map treeEntry treeDiff in
      case send api (CreateTree (repo_user st1) (repo_name st1) tree parentTreeId) st1 of
        (Inl e, st2) \<Rightarrow>
          (Some (Error (''Cannot create a new GitHub Tree: '' @ message e)), st2)
      | (Inr treeSha, st2) \<Rightarrow>
     (case send api (CreateCommit (repo_user st2) (repo_name st2) commitMessage
                       [lastCommitSha st2] treeSha) st2 of
        (Inl e, st3) \<Rightarrow> (Some e, st3)
      | (Inr sha, st3) \<Rightarrow> (None, st3\<lparr>lastCommitSha := sha\<rparr>))))))))"

text \<open>The loop \<open>for (const commit of commits)\<close>, which ends at the first error.\<close>

fun replayCommits ::
  "git_env \<Rightarrow> remote \<Rightarrow> string list \<Rightarrow> session \<Rightarrow> js_error option \<times> session" where
  "replayCommits git api [] st = (None, st)"
| "replayCommits git api (commit # commits) st =
     (case createGithubCommit git api commit st of
        (Some e, st') \<Rightarrow> (Some e, st')
      | (None, st') \<Rightarrow> replayCommits git api commits st')"

text \<open>The \<open>try\<close> around \<open>createRef\<close>: the error that is thrown again, if any.\<close>

definition createPrBranchRef :: "remote \<Rightarrow> session \<Rightarrow> js_error option \<times> session" where
  "createPrBranchRef api st =
     (case send api (CreateRef (repo_user st) (repo_name st) (lastCommitSha st)
                       (''refs/heads/'' @ prBranch st)) st of
        (Inr d, st') \<Rightarrow> (None, st')
      | (Inl error, st') \<Rightarrow>
          (if message error \<noteq> ''Reference already exists'' then (Some error, st')
           else (None, st')))"

text \<open>The final \<open>updateRef\<close>, forced, of the branch of the pull request or the base branch.\<close>

definition updateBranchRef :: "config \<Rightarrow> remote \<Rightarrow> session \<Rightarrow> js_error option \<times> session" where
  "updateBranchRef cfg api st =
     (case send api (UpdateRef (repo_user st) (repo_name st)
                       (''heads/'' @ (if \<not> SKIP_PR cfg then prBranch st else baseBranch st))
                       (lastCommitSha st) True) st of
        (Inl e, st') \<Rightarrow> (Some e, st')
      | (Inr d, st') \<Rightarrow> (None, st'))"

definition createGithubVerifiedCommits ::
  "config \<Rightarrow> git_env \<Rightarrow> remote \<Rightarrow> session \<Rightarrow> js_error option \<times> session" where
  "createGithubVerifiedCommits cfg git api st =
     (case getCommitsToPush git st of
        Inl e \<Rightarrow> (Some e, st)
      | Inr commits \<Rightarrow>
          (case (if \<not> SKIP_PR cfg then createPrBranchRef api st else (None, st)) of
             (Some e, st1) \<Rightarrow> (Some e, st1)
           | (None, st1) \<Rightarrow>
               (case replayCommits git api commits st1 of
                  (Some e, st2) \<Rightarrow> (Some e, st2)
                | (None, st2) \<Rightarrow> updateBranchRef cfg api st2)))"

section \<open>The pull request\<close>

text \<open>
  The default title, the run id \<open>process.env.GITHUB_RUN_ID || 0\<close>, and the body: the
  template literal is interpolated first and \<open>dedent\<close> is called on the one string.
\<close>

definition defaultTitle :: "config \<Rightarrow> string" where
  "defaultTitle cfg = COMMIT_PREFIX cfg @ '' synced file(s) with '' @ GITHUB_REPOSITORY cfg"

definition runId :: "config \<Rightarrow> string" where
  "runId cfg = (case GITHUB_RUN_ID cfg of None \<Rightarrow> ''0'' | Some r \<Rightarrow> if r = [] then ''0'' else r)"

definition prBodyText :: "config \<Rightarrow> string \<Rightarrow> string" where
  "prBodyText cfg changedFiles =
     dedent
       [[NL, TAB, TAB, TAB] @ ''synced local file(s) with ['' @ GITHUB_REPOSITORY cfg @ ''](''
          @ GITHUB_SERVER_URL cfg @ ''/'' @ GITHUB_REPOSITORY cfg @ '').''
        @ [NL, NL, TAB, TAB, TAB] @ PR_BODY cfg
        @ [NL, NL, TAB, TAB, TAB] @ changedFiles
        @ [NL, NL, TAB, TAB, TAB] @ ''---''
        @ [NL, NL, TAB, TAB, TAB]
        @ ''This PR was created automatically by the [repo-file-sync-action](https://github.com/BetaHuhn/repo-file-sync-action) workflow run [#''
        @ runId cfg @ ''](''
        @ GITHUB_SERVER_URL cfg @ ''/'' @ GITHUB_REPOSITORY cfg @ ''/actions/runs/'' @ runId cfg
        @ '')'' @ [NL, TAB, TAB]]
       []"

text \<open>
  \<open>createOrUpdatePr(changedFiles, title)\<close>: the \<open>data\<close> returned, or the error. The
  argument \<open>title\<close> is \<open>Undefined\<close> when it is not given.
\<close>

definition createOrUpdatePr ::
  "config \<Rightarrow> remote \<Rightarrow> string \<Rightarrow> jsval \<Rightarrow> session \<Rightarrow> (js_error + pull_request) \<times> session" where
  "createOrUpdatePr cfg api changedFiles title st =
     (let body = prBodyText cfg changedFiles in
      case existingPr st of
        Some pr \<Rightarrow>
          send_pr api (PullsUpdate (repo_user st) (repo_name st) (Str (defaultTitle cfg))
                         (pr_number pr) body) st
      | None \<Rightarrow>
          (case send_pr api
                  (PullsCreate (repo_user st) (repo_name st)
                     (if title = Undefined then Str (defaultTitle cfg) else title)
                     body
                     ((case FORK cfg of
                         None \<Rightarrow> repo_user st
                       | Some f \<Rightarrow> if f = [] then repo_user st else f) @ '':'' @ prBranch st)
                     (baseBranch st)) st of
             (Inl e, st') \<Rightarrow> (Inl e, st')
           | (Inr data, st') \<Rightarrow> (Inr data, st'\<lparr>existingPr := Some data\<rparr>)))"

section \<open>Well-formed names and paths\<close>

text \<open>
  The name of a directory entry is not empty, is not \<open>.\<close> or \<open>..\<close> and has no
  slash; a tree is proper when all its names are. The segments of a path in normal form
  are such names, after the segments \<open>..\<close> that a relative path may begin with.
\<close>

definition properName :: "string \<Rightarrow> bool" where
  "properName n = (n \<noteq> [] \<and> n \<noteq> ''.'' \<and> n \<noteq> ''..'' \<and> CHR ''/'' \<notin> set n)"

fun properTree :: "fsnode \<Rightarrow> bool"
  and properEntries :: "(string \<times> fsnode) list \<Rightarrow> bool" where
  "properTree (File c) = True"
| "properTree (Dir es) = properEntries es"
| "properEntries [] = True"
| "properEntries ((n, t) # es) = (properName n \<and> properTree t \<and> properEntries es)"

definition normalSegments :: "bool \<Rightarrow> string list \<Rightarrow> bool" where
  "normalSegments allowAboveRoot segs =
     (list_all properName (dropWhile (\<lambda>s. s = ''..'') segs)
      \<and> (allowAboveRoot \<or> list_all properName segs))"

section \<open>Concrete inputs\<close>

text \<open>
  A pattern without special characters matches a string that contains it.
\<close>

definition literalMatch :: "string \<Rightarrow> string \<Rightarrow> bool" where
  "literalMatch pattern s = list_ex (prefix pattern) (suffixes s)"

text \<open>
  A local history of two commits on top of \<open>base0\<close>, whose tree holds \<open>y.txt\<close>:
  \<open>c1\<close> adds \<open>x.txt\<close>, \<open>c2\<close> modifies \<open>x.txt\<close> and deletes \<open>y.txt\<close>.
  \<open>git diff-tree\<close> is called with the tree of the commit first and the tree of its
  parent second, so a file the commit adds is listed with the mode \<open>000000\<close> on the
  side of the parent.
\<close>

definition twoCommits :: git_env where
  "twoCommits =
     \<lparr> cat_file = (\<lambda>obj.
         if obj = ''c1'' then Inr (''tree t1'' @ [NL] @ ''parent base0'' @ [NL, NL] @ ''add x'' @ [NL])
         else if obj = ''c1~1'' then Inr (''tree t0'' @ [NL, NL] @ ''init'' @ [NL])
         else if obj = ''c2'' then Inr (''tree t2'' @ [NL] @ ''parent c1'' @ [NL, NL] @ ''change x, drop y'' @ [NL])
         else if obj = ''c2~1'' then Inr (''tree t1'' @ [NL] @ ''parent base0'' @ [NL, NL] @ ''add x'' @ [NL])
         else if obj = ''bx1'' then Inr (''one'' @ [NL])
         else if obj = ''bx2'' then Inr (''two'' @ [NL])
         else Inl (Error ''fatal: Not a valid object name'')),
       diff_tree = (\<lambda>reference difference.
         if reference = ''t1'' \<and> difference = ''t0''
         then Inr ('':100644 000000 bx1 0000000 D'' @ [TAB] @ ''x.txt'' @ [NL])
         else if reference = ''t2'' \<and> difference = ''t1''
         then Inr ('':100644 100644 bx2 bx1 M'' @ [TAB] @ ''x.txt'' @ [NL]
                   @ '':000000 100644 0000000 by0 A'' @ [TAB] @ ''y.txt'' @ [NL])
         else Inl (Error ''fatal: bad object'')),
       log_message = (\<lambda>commit.
         if commit = ''c1'' then Inr (''add x'' @ [NL])
         else if commit = ''c2'' then Inr (''change x, drop y'' @ [NL])
         else Inl (Error ''fatal: bad revision'')),
       log_commits = (\<lambda>since.
         if since = ''base0'' then Inr (''c1'' @ [NL] @ ''c2'' @ [NL])
         else Inl (Error ''fatal: bad revision'')) \<rparr>"

text \<open>A platform that accepts every request.\<close>

definition accepting :: remote where
  "accepting =
     \<lparr> respond = (\<lambda>sent call.
         case call of
           CreateTree owner repo tree base \<Rightarrow> Inr (''tree-on-'' @ base)
         | CreateCommit owner repo msg parents tree \<Rightarrow> Inr (''commit-of-'' @ tree)
         | _ \<Rightarrow> Inr []),
       respond_pr = (\<lambda>sent call. Inr \<lparr> pr_number = 7, pr_body = [] \<rparr>) \<rparr>"

text \<open>A platform on which the branch of the pull request exists, or cannot be created.\<close>

definition refusingRef :: "string \<Rightarrow> remote" where
  "refusingRef msg =
     accepting \<lparr> respond := (\<lambda>sent call.
       case call of
         CreateRef owner repo sha ref \<Rightarrow> Inl (Error msg)
       | _ \<Rightarrow> respond accepting sent call) \<rparr>"

definition session0 :: session where
  "session0 =
     \<lparr> repo_user = ''org'', repo_name = ''target'', prBranch = ''repo-sync/tools/main'',
       baseBranch = ''main'', lastCommitSha = ''base0'', existingPr = None, requests = [] \<rparr>"

definition config0 :: config where
  "config0 =
     \<lparr> COMMIT_PREFIX = ''sync:'', GITHUB_REPOSITORY = ''org/tools'',
       GITHUB_SERVER_URL = ''https://github.com'', PR_BODY = [], SKIP_PR = False,
       FORK = None, GITHUB_RUN_ID = Some ''42'' \<rparr>"

text \<open>
  A diff of three files: \<open>foo.txt\<close> is modified, \<open>img.png\<close> is binary, \<open>gone.txt\<close>
  is deleted. Each segment is what follows \<open>diff --git\<close>.
\<close>

definition fooSegment :: string where
  "fooSegment =
     '' a/foo.txt b/foo.txt'' @ [NL] @
     ''index 111..222 100644'' @ [NL] @
     ''--- a/foo.txt'' @ [NL] @
     ''+++ b/foo.txt'' @ [NL] @
     ''@@ -1 +1 @@'' @ [NL] @
     ''-old'' @ [NL] @
     ''+new''"

definition imgSegment :: string where
  "imgSegment =
     '' a/img.png b/img.png'' @ [NL] @
     ''index 333..444 100644'' @ [NL] @
     ''Binary files a/img.png and b/img.png differ''"

definition goneSegment :: string where
  "goneSegment =
     '' a/gone.txt b/gone.txt'' @ [NL] @
     ''deleted file mode 100644'' @ [NL] @
     ''index 555..000'' @ [NL] @
     ''--- a/gone.txt'' @ [NL] @
     ''+++ /dev/null'' @ [NL] @
     ''@@ -1 +0,0 @@'' @ [NL] @
     ''-bye'' @ [NL]"

definition threeFiles :: string where
  "threeFiles =
     ''diff --git'' @ fooSegment @ [NL] @ ''diff --git'' @ imgSegment @ [NL]
       @ ''diff --git'' @ goneSegment"

text \<open>
  A diff of two new files whose names git quotes, \<open>caf\<close> and \<open>th\<close> followed by
  an e with an acute accent, written as two octal escapes: a quoted name stands between
  double quotes in the header lines.
\<close>

abbreviation DQ :: char where "DQ \<equiv> CHR 0x22"
abbreviation BS :: char where "BS \<equiv> CHR 0x5C"

definition cafeSegment :: string where
  "cafeSegment =
     '' '' @ [DQ] @ ''a/caf'' @ [BS] @ ''303'' @ [BS] @ ''251.txt'' @ [DQ] @
     '' '' @ [DQ] @ ''b/caf'' @ [BS] @ ''303'' @ [BS] @ ''251.txt'' @ [DQ, NL] @
     ''new file mode 100644'' @ [NL] @
     ''index 0000000..1111111'' @ [NL] @
     ''--- /dev/null'' @ [NL] @
     ''+++ '' @ [DQ] @ ''b/caf'' @ [BS] @ ''303'' @ [BS] @ ''251.txt'' @ [DQ, NL] @
     ''@@ -0,0 +1 @@'' @ [NL] @
     ''+one''"

definition theSegment :: string where
  "theSegment =
     '' '' @ [DQ] @ ''a/th'' @ [BS] @ ''303'' @ [BS] @ ''251.txt'' @ [DQ] @
     '' '' @ [DQ] @ ''b/th'' @ [BS] @ ''303'' @ [BS] @ ''251.txt'' @ [DQ, NL] @
     ''new file mode 100644'' @ [NL] @
     ''index 0000000..2222222'' @ [NL] @
     ''--- /dev/null'' @ [NL] @
     ''+++ '' @ [DQ] @ ''b/th'' @ [BS] @ ''303'' @ [BS] @ ''251.txt'' @ [DQ, NL] @
     ''@@ -0,0 +1 @@'' @ [NL] @
     ''+two'' @ [NL]"

definition quotedNames :: string where
  "quotedNames = ''diff --git'' @ cafeSegment @ [NL] @ ''diff --git'' @ theSegment"

text \<open>
  A working directory with a source directory that holds \<open>a.txt\<close> and a destination
  directory that holds \<open>a.txt\<close> and \<open>b.txt\<close>; and one whose source holds a
  directory \<open>docs\<close> that the destination has too.
\<close>

definition syncTree :: fsnode where
  "syncTree =
     Dir [(''src'', Dir [(''a.txt'', File ''new a'')]),
          (''dest'', Dir [(''a.txt'', File ''old a''), (''b.txt'', File ''old b'')])]"

definition docsTree :: fsnode where
  "docsTree =
     Dir [(''src'', Dir [(''a.txt'', File ''new a''),
                         (''docs'', Dir [(''guide.md'', File ''guide'')])]),
          (''dest'', Dir [(''docs'', Dir [])])]"

text \<open>A rule with no option set, and a template engine that returns the template.\<close>

definition plainRule :: "(unit, string) file_rule" where
  "plainRule =
     \<lparr> template = None, replace = None, exclude = None, excludeFilePatterns = [],
       includeFilePatterns = [], deleteOrphaned = False \<rparr>"

definition verbatim :: "unit \<Rightarrow> string \<Rightarrow> js_error + string" where
  "verbatim context text = Inr text"

section \<open>Facts about strings\<close>

lemma split_on_not_Nil [simp]: "split_on c s \<noteq> []"
  by (induction s) (auto split: list.splits)

lemma split_on_no_sep: "c \<notin> set a \<Longrightarrow> split_on c a = [a]"
  by (induction a) auto

lemma split_on_append_sep: "c \<notin> set a \<Longrightarrow> split_on c (a @ c # b) = a # split_on c b"
  by (induction a) auto

lemma join_Cons: "join sep (x # xs) = (if xs = [] then x else x @ sep @ join sep xs)"
  by (cases xs) auto

lemma split_on_join:
  "ls \<noteq> [] \<Longrightarrow> \<forall>l\<in>set ls. c \<notin> set l \<Longrightarrow> split_on c (join [c] ls) = ls"
proof (induction ls)
  case Nil
  then show ?case by simp
next
  case (Cons l ls)
  show ?case
  proof (cases "ls = []")
    case True
    with Cons.prems show ?thesis by (simp add: split_on_no_sep)
  next
    case False
    with Cons show ?thesis by (simp add: join_Cons split_on_append_sep)
  qed
qed

lemma replace_first_at:
  "x \<notin> set a \<Longrightarrow> replace_first [x] r (a @ x # b) = a @ r @ b"
  by (induction a) auto

lemma dropWhile_id: "s \<noteq> [] \<Longrightarrow> \<not> P (hd s) \<Longrightarrow> dropWhile P s = s"
  by (cases s) auto

lemma trim_id: "s \<noteq> [] \<Longrightarrow> \<not> is_ws (hd s) \<Longrightarrow> \<not> is_ws (last s) \<Longrightarrow> trim s = s"
  by (simp add: trim_def dropWhile_id hd_rev)

lemma trim_snoc_ws: "is_ws c \<Longrightarrow> s \<noteq> [] \<Longrightarrow> \<not> is_ws (hd s) \<Longrightarrow> trim (s @ [c]) = trim s"
  by (cases s) (auto simp: trim_def)

lemma nth_opt_numeral [simp]: "nth_opt (x # xs) (numeral n) = nth_opt xs (pred_numeral n)"
  by (simp add: numeral_eq_Suc)

section \<open>The tree-diff parser: the fields of a line\<close>

lemma parseTreeDiffLine_fields:
  assumes "CHR '' '' \<notin> set f1 \<union> set f2 \<union> set f3 \<union> set f4 \<union> set f5 \<union> set f6"
      and "TAB \<notin> set f1 \<union> set f2 \<union> set f3 \<union> set f4 \<union> set f5"
  shows "parseTreeDiffLine ('':'' @ f1 @ '' '' @ f2 @ '' '' @ f3 @ '' '' @ f4 @ '' '' @ f5 @ [TAB] @ f6)
    = \<lparr> newMode = Str f1, previousMode = Str f2, newBlob = Str f3, previousBlob = Str f4,
        change = Str f5, path = Str f6 \<rparr>"
proof -
  define front where "front = f1 @ '' '' @ f2 @ '' '' @ f3 @ '' '' @ f4 @ '' '' @ f5"
  have tab: "TAB \<notin> set front"
    using assms(2) by (auto simp: front_def)
  have "replace_first [TAB] '' '' (front @ TAB # f6) = front @ '' '' @ f6"
    using tab by (rule replace_first_at)
  also have "\<dots> = join '' '' [f1, f2, f3, f4, f5, f6]"
    by (simp add: front_def)
  finally have r: "replace_first [TAB] '' '' (front @ TAB # f6) = join '' '' [f1, f2, f3, f4, f5, f6]" .
  have s: "split_on (CHR '' '') (join '' '' [f1, f2, f3, f4, f5, f6]) = [f1, f2, f3, f4, f5, f6]"
    using assms(1) by (intro split_on_join) auto
  have "parseTreeDiffLine (CHR '':'' # front @ TAB # f6)
      = (let splitted = split_on (CHR '' '') (replace_first [TAB] '' '' (front @ TAB # f6))
         in \<lparr> newMode = nth_js splitted 0, previousMode = nth_js splitted 1,
              newBlob = nth_js splitted 2, previousBlob = nth_js splitted 3,
              change = nth_js splitted 4, path = nth_js splitted 5 \<rparr>)"
    by (simp add: parseTreeDiffLine_def)
  also have "\<dots> = \<lparr> newMode = Str f1, previousMode = Str f2, newBlob = Str f3,
        previousBlob = Str f4, change = Str f5, path = Str f6 \<rparr>"
    unfolding r s by (simp add: nth_js_def)
  finally show ?thesis
    by (simp add: front_def)
qed


lemma trim_pad:
  assumes "\<forall>c\<in>set a. is_ws c" "\<forall>c\<in>set b. is_ws c" "s \<noteq> []" "\<not> is_ws (hd s)" "\<not> is_ws (last s)"
  shows "trim (a @ s @ b) = s"
proof -
  have 1: "dropWhile is_ws (a @ s @ b) = s @ b"
    using assms(1,3,4) by (simp add: dropWhile_append2 dropWhile_id)
  have "dropWhile is_ws (rev b @ rev s) = dropWhile is_ws (rev s)"
    using assms(2) by (intro dropWhile_append2) simp
  also have "\<dots> = rev s"
    using assms(3,5) by (intro dropWhile_id) (simp_all add: hd_rev)
  finally have 2: "dropWhile is_ws (rev b @ rev s) = rev s" .
  show ?thesis
    by (simp add: trim_def 1 2)
qed

lemma join_last_not_Nil: "ls \<noteq> [] \<Longrightarrow> last ls \<noteq> [] \<Longrightarrow> join sep ls \<noteq> []"
  by (induction sep ls rule: join.induct) auto

lemma last_join: "ls \<noteq> [] \<Longrightarrow> last ls \<noteq> [] \<Longrightarrow> last (join sep ls) = last (last ls)"
  by (induction sep ls rule: join.induct) (auto simp: join_last_not_Nil)

lemma hd_join: "ls \<noteq> [] \<Longrightarrow> hd ls \<noteq> [] \<Longrightarrow> hd (join sep ls) = hd (hd ls)"
  by (induction sep ls rule: join.induct) auto

lemma join_Nil_iff: "ls \<noteq> [] \<Longrightarrow> hd ls \<noteq> [] \<Longrightarrow> join sep ls \<noteq> []"
  by (induction sep ls rule: join.induct) auto

text \<open>
  Claim C2, as amended. The output of \<open>git diff-tree\<close>, with white space around it,
  whose lines are a colon, five fields separated by single spaces, a tab and the path,
  all free of white space, parses to one entry per line, and the fields of a line are, in
  this order, the new mode, the previous mode, the new blob, the previous blob, the change
  and the path. For the line of the specification this gives new blob \<open>abc123\<close> and
  previous blob \<open>def456\<close>.
\<close>

theorem getTreeDiff_rows:
  assumes rows: "rows \<noteq> []"
    and fields: "\<forall>(f1, f2, f3, f4, f5, f6)\<in>set rows.
            (\<forall>c\<in>set (f1 @ f2 @ f3 @ f4 @ f5 @ f6). \<not> is_ws c) \<and> f6 \<noteq> []"
    and pad: "\<forall>c\<in>set pre. is_ws c" "\<forall>c\<in>set post. is_ws c"
  shows "getTreeDiff (Inr (pre @ join [NL] (map (\<lambda>(f1, f2, f3, f4, f5, f6).
            '':'' @ f1 @ '' '' @ f2 @ '' '' @ f3 @ '' '' @ f4 @ '' '' @ f5 @ [TAB] @ f6) rows) @ post))
       = Inr (map (\<lambda>(f1, f2, f3, f4, f5, f6).
            \<lparr> newMode = Str f1, previousMode = Str f2, newBlob = Str f3, previousBlob = Str f4,
              change = Str f5, path = Str f6 \<rparr>) rows)"
proof -
  define line where "line = (\<lambda>(f1, f2, f3, f4, f5, f6).
      '':'' @ f1 @ '' '' @ f2 @ '' '' @ f3 @ '' '' @ f4 @ '' '' @ f5 @ [TAB] @ (f6 :: string))"
  define entry where "entry = (\<lambda>(f1, f2, f3, f4, f5, f6).
      \<lparr> newMode = Str f1, previousMode = Str f2, newBlob = Str f3, previousBlob = Str f4,
        change = Str f5, path = Str f6 \<rparr>)"
  define ls where "ls = map line rows"
  have parse: "parseTreeDiffLine (line r) = entry r" if "r \<in> set rows" for r
  proof -
    obtain f1 f2 f3 f4 f5 f6 where r: "r = (f1, f2, f3, f4, f5, f6)"
      by (cases r) auto
    from fields that r have ws: "\<forall>c\<in>set (f1 @ f2 @ f3 @ f4 @ f5 @ f6). \<not> is_ws c"
      by auto
    have sp: "CHR '' '' \<notin> set f1 \<union> set f2 \<union> set f3 \<union> set f4 \<union> set f5 \<union> set f6"
      using ws by (auto simp: is_ws_def)
    have tb: "TAB \<notin> set f1 \<union> set f2 \<union> set f3 \<union> set f4 \<union> set f5"
      using ws by (auto simp: is_ws_def)
    show ?thesis
      unfolding r line_def entry_def prod.case by (rule parseTreeDiffLine_fields [OF sp tb])
  qed
  have nl: "NL \<notin> set l" if "l \<in> set ls" for l
  proof -
    from that obtain f1 f2 f3 f4 f5 f6 where r: "(f1, f2, f3, f4, f5, f6) \<in> set rows"
      and l: "l = line (f1, f2, f3, f4, f5, f6)"
      by (auto simp: ls_def)
    from fields r have "\<forall>c\<in>set (f1 @ f2 @ f3 @ f4 @ f5 @ f6). \<not> is_ws c"
      by auto
    then show ?thesis
      unfolding l line_def by (auto simp: is_ws_def)
  qed
  have ls: "ls \<noteq> []"
    using rows by (simp add: ls_def)
  have hd_ls: "hd ls \<noteq> [] \<and> hd (hd ls) = CHR '':''"
    using rows by (cases rows) (auto simp: ls_def line_def)
  have last_ls: "last ls \<noteq> [] \<and> \<not> is_ws (last (last ls))"
  proof -
    obtain f1 f2 f3 f4 f5 f6 where r: "last rows = (f1, f2, f3, f4, f5, f6)"
      by (cases "last rows") auto
    have "last rows \<in> set rows"
      using rows by simp
    with fields r have "(\<forall>c\<in>set f6. \<not> is_ws c) \<and> f6 \<noteq> []"
      by auto
    moreover have "last ls = line (last rows)"
      using rows by (simp add: ls_def last_map)
    ultimately show ?thesis
      by (simp add: r line_def)
  qed
  have body: "join [NL] ls \<noteq> []" "\<not> is_ws (hd (join [NL] ls))" "\<not> is_ws (last (join [NL] ls))"
    using ls hd_ls last_ls by (simp_all add: join_Nil_iff hd_join last_join is_ws_def)
  have "trim (pre @ join [NL] ls @ post) = join [NL] ls"
    using pad body by (rule trim_pad)
  moreover have "split_on NL (join [NL] ls) = ls"
    using ls nl by (intro split_on_join) auto
  moreover have "map parseTreeDiffLine ls = map entry rows"
    using parse by (simp add: ls_def)
  ultimately show ?thesis
    unfolding line_def [symmetric] entry_def [symmetric] ls_def [symmetric]
    by (simp add: getTreeDiff_def execCmd_def)
qed

text \<open>The line of the specification, through the theorem.\<close>

theorem getTreeDiff_rows_witness:
  "getTreeDiff (Inr (''  :100644 100644 abc123 def456 M'' @ [TAB] @ ''foo/bar.txt'' @ [NL])) =
     Inr [\<lparr> newMode = Str ''100644'', previousMode = Str ''100644'', newBlob = Str ''abc123'',
            previousBlob = Str ''def456'', change = Str ''M'', path = Str ''foo/bar.txt'' \<rparr>]"
  using getTreeDiff_rows [of "[(''100644'', ''100644'', ''abc123'', ''def456'', ''M'', ''foo/bar.txt'')]"
      "''  ''" "[NL]"]
  by (simp add: is_ws_def)

text \<open>
  Claim C2 as stated gives the entry of that line the new blob \<open>def456\<close> and the
  previous blob \<open>abc123\<close>: the parser returns them the other way round. And a line
  is split at every space: of the path \<open>my file.txt\<close> the entry keeps \<open>my\<close>.
\<close>

theorem getTreeDiff_example_counterexample:
  "getTreeDiff (Inr (''  :100644 100644 abc123 def456 M'' @ [TAB] @ ''foo/bar.txt'' @ [NL])) \<noteq>
     Inr [\<lparr> newMode = Str ''100644'', previousMode = Str ''100644'', newBlob = Str ''def456'',
            previousBlob = Str ''abc123'', change = Str ''M'', path = Str ''foo/bar.txt'' \<rparr>]
   \<and> getTreeDiff (Inr ('':100644 100644 abc123 def456 M'' @ [TAB] @ ''my file.txt'' @ [NL])) =
     Inr [\<lparr> newMode = Str ''100644'', previousMode = Str ''100644'', newBlob = Str ''abc123'',
            previousBlob = Str ''def456'', change = Str ''M'', path = Str ''my'' \<rparr>]"
  by (simp add: getTreeDiff_def execCmd_def trim_def is_ws_def parseTreeDiffLine_def nth_js_def)


section \<open>The pull request: title and body\<close>

text \<open>
  Claim C8. With a pull request handle, the one request sent is an update of that pull
  request whose body is the rendered body and whose title is the default string, whatever
  the argument \<open>title\<close> is; without a handle, the one request sent creates a pull
  request with the argument as its title, or with the default string when the argument is
  \<open>undefined\<close>.
\<close>

theorem createOrUpdatePr_title:
  "(existingPr st = Some pr \<longrightarrow>
      requests (snd (createOrUpdatePr cfg api changedFiles title st)) =
        requests st @
          [PullsUpdate (repo_user st) (repo_name st)
             (Str (COMMIT_PREFIX cfg @ '' synced file(s) with '' @ GITHUB_REPOSITORY cfg))
             (pr_number pr) (prBodyText cfg changedFiles)])
   \<and> (existingPr st = None \<longrightarrow>
      requests (snd (createOrUpdatePr cfg api changedFiles title st)) =
        requests st @
          [PullsCreate (repo_user st) (repo_name st)
             (case title of
                Undefined \<Rightarrow>
                  Str (COMMIT_PREFIX cfg @ '' synced file(s) with '' @ GITHUB_REPOSITORY cfg)
              | Null \<Rightarrow> Null
              | Str t \<Rightarrow> Str t)
             (prBodyText cfg changedFiles)
             ((case FORK cfg of
                 None \<Rightarrow> repo_user st
               | Some f \<Rightarrow> if f = [] then repo_user st else f) @ '':'' @ prBranch st)
             (baseBranch st)])"
  by (cases title)
     (auto simp: createOrUpdatePr_def send_pr_def defaultTitle_def Let_def split: sum.splits)

text \<open>
  A custom title with a handle and without one, and no title without a handle.
\<close>

theorem createOrUpdatePr_title_witness:
  "requests (snd (createOrUpdatePr config0 accepting ''- a.txt'' (Str ''my title'')
       (session0\<lparr>existingPr := Some \<lparr> pr_number = 7, pr_body = ''old'' \<rparr>\<rparr>))) =
     [PullsUpdate ''org'' ''target'' (Str ''sync: synced file(s) with org/tools'') 7
        (prBodyText config0 ''- a.txt'')]
   \<and> requests (snd (createOrUpdatePr config0 accepting ''- a.txt'' (Str ''my title'') session0)) =
     [PullsCreate ''org'' ''target'' (Str ''my title'') (prBodyText config0 ''- a.txt'')
        ''org:repo-sync/tools/main'' ''main'']
   \<and> requests (snd (createOrUpdatePr config0 accepting ''- a.txt'' Undefined session0)) =
     [PullsCreate ''org'' ''target'' (Str ''sync: synced file(s) with org/tools'')
        (prBodyText config0 ''- a.txt'') ''org:repo-sync/tools/main'' ''main'']"
  using createOrUpdatePr_title [of "session0\<lparr>existingPr := Some \<lparr> pr_number = 7, pr_body = ''old'' \<rparr>\<rparr>"
      "\<lparr> pr_number = 7, pr_body = ''old'' \<rparr>" config0 accepting "''- a.txt''" "Str ''my title''"]
    createOrUpdatePr_title [of session0 pr config0 accepting "''- a.txt''" "Str ''my title''"]
    createOrUpdatePr_title [of session0 pr config0 accepting "''- a.txt''" Undefined]
  by (simp add: session0_def config0_def)

section \<open>The requests of the replay\<close>

lemma execCmd_raw [simp]: "execCmd outcome False = outcome"
  by (cases outcome) (simp_all add: execCmd_def)

lemma send_requests [simp]:
  "snd (send api call st) = st\<lparr>requests := requests st @ [call]\<rparr>"
  by (simp add: send_def)

lemma uploadBlobs_ok:
  "uploadBlobs git api blobs st = (None, st') \<Longrightarrow>
     \<exists>contents. list_all2 (\<lambda>blob c. cat_file git (js_to_string blob) = Inr c) blobs contents
       \<and> st' = st\<lparr>requests := requests st
              @ map (\<lambda>c. CreateBlob (repo_user st) (repo_name st) (Base64 c)) contents\<rparr>"
proof (induction blobs arbitrary: st st')
  case Nil
  then show ?case by simp
next
  case (Cons blob blobs)
  from Cons.prems obtain st1 where
    1: "uploadGitHubBlob git api blob st = (None, st1)" and
    2: "uploadBlobs git api blobs st1 = (None, st')"
    by (auto split: prod.splits option.splits)
  from 1 obtain c where c: "cat_file git (js_to_string blob) = Inr c"
    and st1: "st1 = st\<lparr>requests := requests st @ [CreateBlob (repo_user st) (repo_name st) (Base64 c)]\<rparr>"
    by (auto simp: uploadGitHubBlob_def send_def split: sum.splits prod.splits)
  from Cons.IH [OF 2] obtain cs where
    cs: "list_all2 (\<lambda>blob c. cat_file git (js_to_string blob) = Inr c) blobs cs"
    and st': "st' = st1\<lparr>requests := requests st1
              @ map (\<lambda>c. CreateBlob (repo_user st1) (repo_name st1) (Base64 c)) cs\<rparr>"
    by blast
  show ?case
    by (rule exI [of _ "c # cs"]) (simp add: c cs st' st1)
qed


lemma createGithubCommit_ok:
  assumes "createGithubCommit git api commitSha st = (None, st')"
  shows "\<exists>treeId parentTreeId commitMessage treeDiff contents treeSha.
      getTreeId git commitSha = Inr treeId
    \<and> getTreeId git (commitSha @ ''~1'') = Inr parentTreeId
    \<and> getCommitMessage git commitSha = Inr commitMessage
    \<and> getTreeDiff (diff_tree git treeId parentTreeId) = Inr treeDiff
    \<and> list_all2 (\<lambda>e c. cat_file git (js_to_string (newBlob e)) = Inr c)
          (filter (\<lambda>e. newMode e \<noteq> Str ''000000'') treeDiff) contents
    \<and> requests st' =
          requests st
          @ map (\<lambda>c. CreateBlob (repo_user st) (repo_name st) (Base64 c)) contents
          @ [CreateTree (repo_user st) (repo_name st)
               (map (\<lambda>e. if newMode e = Str ''000000''
                          then \<lparr> t_path = path e, t_mode = previousMode e, t_type = ''blob'',
                                 t_sha = Null \<rparr>
                          else \<lparr> t_path = path e, t_mode = newMode e, t_type = ''blob'',
                                 t_sha = newBlob e \<rparr>) treeDiff)
               parentTreeId,
             CreateCommit (repo_user st) (repo_name st) commitMessage [lastCommitSha st] treeSha]"
proof -
  from assms obtain treeId parentTreeId commitMessage treeDiff st1 where
    ids: "getTreeId git commitSha = Inr treeId"
      "getTreeId git (commitSha @ ''~1'') = Inr parentTreeId"
      "getCommitMessage git commitSha = Inr commitMessage"
      "getTreeDiff (diff_tree git treeId parentTreeId) = Inr treeDiff"
    and up: "uploadBlobs git api (map newBlob (filter (\<lambda>e. newMode e \<noteq> deletion) treeDiff)) st
        = (None, st1)"
    and rest: "(case send api (CreateTree (repo_user st1) (repo_name st1) (map treeEntry treeDiff)
                   parentTreeId) st1 of
          (Inl e, st2) \<Rightarrow> (Some (Error (''Cannot create a new GitHub Tree: '' @ message e)), st2)
        | (Inr treeSha, st2) \<Rightarrow>
            (case send api (CreateCommit (repo_user st2) (repo_name st2) commitMessage
                              [lastCommitSha st2] treeSha) st2 of
               (Inl e, st3) \<Rightarrow> (Some e, st3)
             | (Inr sha, st3) \<Rightarrow> (None, st3\<lparr>lastCommitSha := sha\<rparr>))) = (None, st')"
    unfolding createGithubCommit_def Let_def
    by (auto split: sum.splits prod.splits option.splits)
  from uploadBlobs_ok [OF up] obtain contents where
    cs: "list_all2 (\<lambda>blob c. cat_file git (js_to_string blob) = Inr c)
           (map newBlob (filter (\<lambda>e. newMode e \<noteq> deletion) treeDiff)) contents"
    and st1: "st1 = st\<lparr>requests := requests st
              @ map (\<lambda>c. CreateBlob (repo_user st) (repo_name st) (Base64 c)) contents\<rparr>"
    by blast
  from rest obtain treeSha where
    "requests st' = requests st1
       @ [CreateTree (repo_user st1) (repo_name st1) (map treeEntry treeDiff) parentTreeId,
          CreateCommit (repo_user st1) (repo_name st1) commitMessage [lastCommitSha st1] treeSha]"
    by (auto simp: send_def split: sum.splits)
  then have req: "requests st' = requests st
       @ map (\<lambda>c. CreateBlob (repo_user st) (repo_name st) (Base64 c)) contents
       @ [CreateTree (repo_user st) (repo_name st) (map treeEntry treeDiff) parentTreeId,
          CreateCommit (repo_user st) (repo_name st) commitMessage [lastCommitSha st] treeSha]"
    by (simp add: st1)
  have entries: "map treeEntry treeDiff =
      map (\<lambda>e. if newMode e = Str ''000000''
                 then \<lparr> t_path = path e, t_mode = previousMode e, t_type = ''blob'',
                        t_sha = Null \<rparr>
                 else \<lparr> t_path = path e, t_mode = newMode e, t_type = ''blob'',
                        t_sha = newBlob e \<rparr>) treeDiff"
    by (simp add: treeEntry_def deletion_def)
  from cs have "list_all2 (\<lambda>e c. cat_file git (js_to_string (newBlob e)) = Inr c)
          (filter (\<lambda>e. newMode e \<noteq> Str ''000000'') treeDiff) contents"
    by (simp add: list_all2_map1 deletion_def)
  with ids req show ?thesis
    unfolding entries by blast
qed

lemma replay_twoCommits:
  "createGithubVerifiedCommits config0 twoCommits accepting session0 =
     (None,
      session0\<lparr>lastCommitSha := ''commit-of-tree-on-t1'',
        requests :=
          [CreateRef ''org'' ''target'' ''base0'' ''refs/heads/repo-sync/tools/main'',
           CreateBlob ''org'' ''target'' (Base64 (''one'' @ [NL])),
           CreateTree ''org'' ''target''
             [\<lparr> t_path = Str ''x.txt'', t_mode = Str ''100644'', t_type = ''blob'',
                t_sha = Str ''bx1'' \<rparr>] ''t0'',
           CreateCommit ''org'' ''target'' ''add x'' [''base0''] ''tree-on-t0'',
           CreateBlob ''org'' ''target'' (Base64 (''two'' @ [NL])),
           CreateTree ''org'' ''target''
             [\<lparr> t_path = Str ''x.txt'', t_mode = Str ''100644'', t_type = ''blob'',
                t_sha = Str ''bx2'' \<rparr>,
              \<lparr> t_path = Str ''y.txt'', t_mode = Str ''100644'', t_type = ''blob'',
                t_sha = Null \<rparr>] ''t1'',
           CreateCommit ''org'' ''target'' ''change x, drop y'' [''commit-of-tree-on-t0'']
             ''tree-on-t1'',
           UpdateRef ''org'' ''target'' ''heads/repo-sync/tools/main'' ''commit-of-tree-on-t1''
             True]\<rparr>)"
  by (simp add: createGithubVerifiedCommits_def getCommitsToPush_def execCmd_def trim_def
      is_ws_def twoCommits_def accepting_def session0_def config0_def createPrBranchRef_def
      send_def createGithubCommit_def getTreeId_def getCommitMessage_def getTreeDiff_def
      parseTreeDiffLine_def nth_js_def uploadGitHubBlob_def treeEntry_def deletion_def
      updateBranchRef_def Let_def)


lemma createGithubCommit_c2:
  "createGithubCommit twoCommits accepting ''c2''
     (session0\<lparr>lastCommitSha := ''commit-of-tree-on-t0'',
        requests := [CreateBlob ''org'' ''target'' (Base64 (''one'' @ [NL]))]\<rparr>) =
   (None,
    session0\<lparr>lastCommitSha := ''commit-of-tree-on-t1'',
      requests :=
        [CreateBlob ''org'' ''target'' (Base64 (''one'' @ [NL])),
         CreateBlob ''org'' ''target'' (Base64 (''two'' @ [NL])),
         CreateTree ''org'' ''target''
           [\<lparr> t_path = Str ''x.txt'', t_mode = Str ''100644'', t_type = ''blob'',
              t_sha = Str ''bx2'' \<rparr>,
            \<lparr> t_path = Str ''y.txt'', t_mode = Str ''100644'', t_type = ''blob'',
              t_sha = Null \<rparr>] ''t1'',
         CreateCommit ''org'' ''target'' ''change x, drop y'' [''commit-of-tree-on-t0'']
           ''tree-on-t1'']\<rparr>)"
  by (simp add: execCmd_def trim_def is_ws_def twoCommits_def accepting_def session0_def
      send_def createGithubCommit_def getTreeId_def getCommitMessage_def getTreeDiff_def
      parseTreeDiffLine_def nth_js_def uploadGitHubBlob_def treeEntry_def deletion_def Let_def)

text \<open>
  Claim C4. A commit that is replayed without error has sent, in this order, one blob
  for each entry of its tree diff whose new mode is not \<open>000000\<close> (and for no other
  entry), one tree whose payload has an entry for each entry of the diff, a deletion
  with the previous mode and the sha \<open>null\<close>, and one commit on top of the last
  commit. For the two commits \<open>c1\<close> (adds \<open>x.txt\<close>) and \<open>c2\<close> (modifies
  \<open>x.txt\<close>, deletes \<open>y.txt\<close>) the requests are: the branch, the blob of \<open>x.txt\<close>,
  a tree and a commit for \<open>c1\<close>; the new blob of \<open>x.txt\<close>, a tree in which
  \<open>y.txt\<close> has the sha \<open>null\<close> and a commit for \<open>c2\<close>; the update of the
  branch. No blob is sent for \<open>y.txt\<close>.
\<close>

theorem replay_blob_uploads:
  "(createGithubCommit git api commitSha st = (None, st') \<longrightarrow>
     (\<exists>treeId parentTreeId commitMessage treeDiff contents treeSha.
        getTreeId git commitSha = Inr treeId
      \<and> getTreeId git (commitSha @ ''~1'') = Inr parentTreeId
      \<and> getCommitMessage git commitSha = Inr commitMessage
      \<and> getTreeDiff (diff_tree git treeId parentTreeId) = Inr treeDiff
      \<and> list_all2 (\<lambda>e c. cat_file git (js_to_string (newBlob e)) = Inr c)
            (filter (\<lambda>e. newMode e \<noteq> Str ''000000'') treeDiff) contents
      \<and> requests st' =
            requests st
            @ map (\<lambda>c. CreateBlob (repo_user st) (repo_name st) (Base64 c)) contents
            @ [CreateTree (repo_user st) (repo_name st)
                 (map (\<lambda>e. if newMode e = Str ''000000''
                            then \<lparr> t_path = path e, t_mode = previousMode e, t_type = ''blob'',
                                   t_sha = Null \<rparr>
                            else \<lparr> t_path = path e, t_mode = newMode e, t_type = ''blob'',
                                   t_sha = newBlob e \<rparr>) treeDiff)
                 parentTreeId,
               CreateCommit (repo_user st) (repo_name st) commitMessage [lastCommitSha st]
                 treeSha]))
   \<and> createGithubVerifiedCommits config0 twoCommits accepting session0 =
     (None,
      session0\<lparr>lastCommitSha := ''commit-of-tree-on-t1'',
        requests :=
          [CreateRef ''org'' ''target'' ''base0'' ''refs/heads/repo-sync/tools/main'',
           CreateBlob ''org'' ''target'' (Base64 (''one'' @ [NL])),
           CreateTree ''org'' ''target''
             [\<lparr> t_path = Str ''x.txt'', t_mode = Str ''100644'', t_type = ''blob'',
                t_sha = Str ''bx1'' \<rparr>] ''t0'',
           CreateCommit ''org'' ''target'' ''add x'' [''base0''] ''tree-on-t0'',
           CreateBlob ''org'' ''target'' (Base64 (''two'' @ [NL])),
           CreateTree ''org'' ''target''
             [\<lparr> t_path = Str ''x.txt'', t_mode = Str ''100644'', t_type = ''blob'',
                t_sha = Str ''bx2'' \<rparr>,
              \<lparr> t_path = Str ''y.txt'', t_mode = Str ''100644'', t_type = ''blob'',
                t_sha = Null \<rparr>] ''t1'',
           CreateCommit ''org'' ''target'' ''change x, drop y'' [''commit-of-tree-on-t0'']
             ''tree-on-t1'',
           UpdateRef ''org'' ''target'' ''heads/repo-sync/tools/main'' ''commit-of-tree-on-t1''
             True]\<rparr>)"
  using createGithubCommit_ok [of git api commitSha st st'] replay_twoCommits
  by blast

text \<open>The commit \<open>c2\<close>, replayed after a blob was sent, through the theorem.\<close>

theorem replay_blob_uploads_witness:
  "\<exists>treeDiff contents treeSha.
      getTreeDiff (diff_tree twoCommits ''t2'' ''t1'') = Inr treeDiff
    \<and> list_all2 (\<lambda>e c. cat_file twoCommits (js_to_string (newBlob e)) = Inr c)
          (filter (\<lambda>e. newMode e \<noteq> Str ''000000'') treeDiff) contents
    \<and> [CreateBlob ''org'' ''target'' (Base64 (''one'' @ [NL])),
         CreateBlob ''org'' ''target'' (Base64 (''two'' @ [NL])),
         CreateTree ''org'' ''target''
           [\<lparr> t_path = Str ''x.txt'', t_mode = Str ''100644'', t_type = ''blob'',
              t_sha = Str ''bx2'' \<rparr>,
            \<lparr> t_path = Str ''y.txt'', t_mode = Str ''100644'', t_type = ''blob'',
              t_sha = Null \<rparr>] ''t1'',
         CreateCommit ''org'' ''target'' ''change x, drop y'' [''commit-of-tree-on-t0'']
           ''tree-on-t1''] =
        [CreateBlob ''org'' ''target'' (Base64 (''one'' @ [NL]))]
        @ map (\<lambda>c. CreateBlob ''org'' ''target'' (Base64 c)) contents
        @ [CreateTree ''org'' ''target''
             (map (\<lambda>e. if newMode e = Str ''000000''
                        then \<lparr> t_path = path e, t_mode = previousMode e, t_type = ''blob'',
                               t_sha = Null \<rparr>
                        else \<lparr> t_path = path e, t_mode = newMode e, t_type = ''blob'',
                               t_sha = newBlob e \<rparr>) treeDiff)
             ''t1'',
           CreateCommit ''org'' ''target'' ''change x, drop y'' [''commit-of-tree-on-t0'']
             treeSha]"
proof -
  have ids: "getTreeId twoCommits ''c2'' = Inr ''t2''" "getTreeId twoCommits ''c2~1'' = Inr ''t1''"
    "getCommitMessage twoCommits ''c2'' = Inr ''change x, drop y''"
    by (simp_all add: getTreeId_def getCommitMessage_def execCmd_def trim_def is_ws_def
        twoCommits_def)
  from replay_blob_uploads [of twoCommits accepting "''c2''"
      "session0\<lparr>lastCommitSha := ''commit-of-tree-on-t0'',
         requests := [CreateBlob ''org'' ''target'' (Base64 (''one'' @ [NL]))]\<rparr>"
      "session0\<lparr>lastCommitSha := ''commit-of-tree-on-t1'',
        requests :=
          [CreateBlob ''org'' ''target'' (Base64 (''one'' @ [NL])),
           CreateBlob ''org'' ''target'' (Base64 (''two'' @ [NL])),
           CreateTree ''org'' ''target''
             [\<lparr> t_path = Str ''x.txt'', t_mode = Str ''100644'', t_type = ''blob'',
                t_sha = Str ''bx2'' \<rparr>,
              \<lparr> t_path = Str ''y.txt'', t_mode = Str ''100644'', t_type = ''blob'',
                t_sha = Null \<rparr>] ''t1'',
           CreateCommit ''org'' ''target'' ''change x, drop y'' [''commit-of-tree-on-t0'']
             ''tree-on-t1'']\<rparr>"]
    createGithubCommit_c2
  show ?thesis
    by (simp add: ids session0_def)
qed

section \<open>The branch of the pull request\<close>

lemma uploadBlobs_prefix:
  "uploadBlobs git api blobs st = (r, st') \<Longrightarrow> prefix (requests st) (requests st')"
proof (induction blobs arbitrary: st r st')
  case Nil
  then show ?case by simp
next
  case (Cons blob blobs)
  from Cons.prems obtain r1 st1 rs where
    1: "uploadGitHubBlob git api blob st = (r1, st1)" and
    2: "uploadBlobs git api blobs st1 = (rs, st')"
    by (auto split: prod.splits)
  from 1 have "prefix (requests st) (requests st1)"
    by (auto simp: uploadGitHubBlob_def send_def split: sum.splits)
  with Cons.IH [OF 2] show ?case
    by (rule prefix_order.trans [rotated])
qed

lemma createGithubCommit_prefix:
  "createGithubCommit git api commit st = (r, st') \<Longrightarrow> prefix (requests st) (requests st')"
  unfolding createGithubCommit_def Let_def
  by (auto simp: send_def split: sum.splits prod.splits option.splits
      dest!: uploadBlobs_prefix intro: prefix_prefix)

lemma replayCommits_prefix:
  "replayCommits git api commits st = (r, st') \<Longrightarrow> prefix (requests st) (requests st')"
proof (induction commits arbitrary: st)
  case Nil
  then show ?case by simp
next
  case (Cons commit commits)
  obtain r1 st1 where 1: "createGithubCommit git api commit st = (r1, st1)"
    by (cases "createGithubCommit git api commit st") auto
  note p = createGithubCommit_prefix [OF 1]
  show ?case
  proof (cases r1)
    case None
    with Cons.prems 1 have "replayCommits git api commits st1 = (r, st')"
      by simp
    from p Cons.IH [OF this] show ?thesis
      by (rule prefix_order.trans)
  next
    case (Some e)
    with Cons.prems 1 p show ?thesis
      by simp
  qed
qed

lemma updateBranchRef_prefix:
  "updateBranchRef cfg api st = (r, st') \<Longrightarrow> prefix (requests st) (requests st')"
  by (auto simp: updateBranchRef_def send_def split: sum.splits)

lemma replay_then_update_prefix:
  assumes "(case replayCommits git api commits st of
              (Some e, st2) \<Rightarrow> (Some e, st2)
            | (None, st2) \<Rightarrow> updateBranchRef cfg api st2) = (r, st')"
  shows "prefix (requests st) (requests st')"
proof -
  obtain r1 st1 where 1: "replayCommits git api commits st = (r1, st1)"
    by (cases "replayCommits git api commits st") auto
  note p = replayCommits_prefix [OF 1]
  show ?thesis
  proof (cases r1)
    case None
    with assms 1 have "updateBranchRef cfg api st1 = (r, st')"
      by simp
    from p updateBranchRef_prefix [OF this] show ?thesis
      by (rule prefix_order.trans)
  next
    case (Some e)
    with assms 1 p show ?thesis
      by simp
  qed
qed

text \<open>
  Claim C6. With pull requests enabled and the list of commits read, the first request
  the publishing sends is the creation of the ref \<open>refs/heads/\<close> followed by the branch
  of the pull request, at the last commit sha the session had before the replay. When
  the platform answers it with an error whose message is not
  \<open>Reference already exists\<close>, that error is the outcome and nothing else was sent; when
  it answers with that message, the outcome is the outcome of the replay and of the
  update of the branch, as it is when the ref was created.
\<close>

theorem createRef_before_replay:
  assumes "\<not> SKIP_PR cfg" and "getCommitsToPush git st = Inr commits"
  shows
    "prefix (requests st @ [CreateRef (repo_user st) (repo_name st) (lastCommitSha st)
                             (''refs/heads/'' @ prBranch st)])
       (requests (snd (createGithubVerifiedCommits cfg git api st)))
     \<and> (\<forall>error.
          respond api (requests st)
            (CreateRef (repo_user st) (repo_name st) (lastCommitSha st)
               (''refs/heads/'' @ prBranch st)) = Inl error \<and>
          message error \<noteq> ''Reference already exists'' \<longrightarrow>
          createGithubVerifiedCommits cfg git api st =
            (Some error,
             st\<lparr>requests := requests st @ [CreateRef (repo_user st) (repo_name st)
                 (lastCommitSha st) (''refs/heads/'' @ prBranch st)]\<rparr>))
     \<and> ((\<exists>error.
          respond api (requests st)
            (CreateRef (repo_user st) (repo_name st) (lastCommitSha st)
               (''refs/heads/'' @ prBranch st)) = Inl error \<and>
          message error = ''Reference already exists'') \<or>
        (\<exists>d.
          respond api (requests st)
            (CreateRef (repo_user st) (repo_name st) (lastCommitSha st)
               (''refs/heads/'' @ prBranch st)) = Inr d) \<longrightarrow>
          createGithubVerifiedCommits cfg git api st =
            (case replayCommits git api commits
                    (st\<lparr>requests := requests st @ [CreateRef (repo_user st) (repo_name st)
                        (lastCommitSha st) (''refs/heads/'' @ prBranch st)]\<rparr>) of
               (Some e, st2) \<Rightarrow> (Some e, st2)
             | (None, st2) \<Rightarrow> updateBranchRef cfg api st2))"
proof -
  define ref where "ref = CreateRef (repo_user st) (repo_name st) (lastCommitSha st)
      (''refs/heads/'' @ prBranch st)"
  define st1 where "st1 = st\<lparr>requests := requests st @ [ref]\<rparr>"
  define continue where "continue =
      (case replayCommits git api commits st1 of
         (Some e, st2) \<Rightarrow> (Some e, st2)
       | (None, st2) \<Rightarrow> updateBranchRef cfg api st2)"
  have fatal: "createGithubVerifiedCommits cfg git api st = (Some error, st1)"
    if "respond api (requests st) ref = Inl error"
      "message error \<noteq> ''Reference already exists''" for error
    using that assms
    by (simp add: createGithubVerifiedCommits_def createPrBranchRef_def send_def ref_def st1_def)
  have benign: "createGithubVerifiedCommits cfg git api st = continue"
    if "(\<exists>error. respond api (requests st) ref = Inl error
            \<and> message error = ''Reference already exists'')
        \<or> (\<exists>d. respond api (requests st) ref = Inr d)"
    using that assms
    by (auto simp: createGithubVerifiedCommits_def createPrBranchRef_def send_def ref_def
        st1_def continue_def split: prod.splits option.splits)
  have "prefix (requests st1) (requests (snd continue))"
    using replay_then_update_prefix [where git = git and api = api and commits = commits
        and st = st1 and cfg = cfg and r = "fst continue" and st' = "snd continue"]
    by (simp add: continue_def)
  then have first: "prefix (requests st @ [ref])
      (requests (snd (createGithubVerifiedCommits cfg git api st)))"
  proof (cases "respond api (requests st) ref")
    case (Inl error)
    then show ?thesis
      using fatal [of error] benign \<open>prefix (requests st1) (requests (snd continue))\<close>
      by (cases "message error = ''Reference already exists''") (auto simp: st1_def)
  next
    case (Inr d)
    then show ?thesis
      using benign \<open>prefix (requests st1) (requests (snd continue))\<close>
      by (auto simp: st1_def)
  qed
  from first fatal benign show ?thesis
    unfolding ref_def st1_def continue_def by blast
qed


text \<open>
  The two commits, on a platform that refuses the ref with \<open>Not Found\<close>, on one that
  has the ref already, and on one that creates it.
\<close>

theorem createRef_before_replay_witness:
  "\<not> SKIP_PR config0
   \<and> getCommitsToPush twoCommits session0 = Inr [''c1'', ''c2'']
   \<and> createGithubVerifiedCommits config0 twoCommits (refusingRef ''Not Found'') session0 =
       (Some (Error ''Not Found''),
        session0\<lparr>requests :=
          [CreateRef ''org'' ''target'' ''base0'' ''refs/heads/repo-sync/tools/main'']\<rparr>)
   \<and> createGithubVerifiedCommits config0 twoCommits (refusingRef ''Reference already exists'')
         session0 =
       (case replayCommits twoCommits (refusingRef ''Reference already exists'') [''c1'', ''c2'']
               (session0\<lparr>requests :=
                  [CreateRef ''org'' ''target'' ''base0'' ''refs/heads/repo-sync/tools/main'']\<rparr>) of
          (Some e, st2) \<Rightarrow> (Some e, st2)
        | (None, st2) \<Rightarrow> updateBranchRef config0 (refusingRef ''Reference already exists'') st2)
   \<and> prefix [CreateRef ''org'' ''target'' ''base0'' ''refs/heads/repo-sync/tools/main'']
       (requests (snd (createGithubVerifiedCommits config0 twoCommits accepting session0)))"
proof -
  have pr: "\<not> SKIP_PR config0"
    by (simp add: config0_def)
  have commits: "getCommitsToPush twoCommits session0 = Inr [''c1'', ''c2'']"
    by (simp add: getCommitsToPush_def execCmd_def trim_def is_ws_def twoCommits_def session0_def)
  note facts = createRef_before_replay [OF pr commits]
  from facts [of "refusingRef ''Not Found''"] facts [of "refusingRef ''Reference already exists''"]
    facts [of accepting] pr commits
  show ?thesis
    by (simp add: refusingRef_def accepting_def session0_def)
qed


section \<open>The unified-diff parser: keys and bodies\<close>

lemma findIndex_Some_0: "findIndex p xs = Some 0 \<longleftrightarrow> xs \<noteq> [] \<and> p (hd xs)"
  by (cases xs) auto

lemma findIndex_Some_nth: "findIndex p xs = Some i \<Longrightarrow> i < length xs \<and> p (xs ! i)"
  by (induction xs arbitrary: i) (auto split: if_splits)

lemma parseFileDiff_throws:
  "(\<exists>e. parseFileDiff fileDiff = Inl e) \<longleftrightarrow>
     prefix ''+++'' (hd (split_on NL fileDiff)) \<and> \<not> prefix ''+++ b/'' (hd (split_on NL fileDiff))"
proof -
  have "split_on NL fileDiff \<noteq> []"
    by simp
  then show ?thesis
    unfolding parseFileDiff_def Let_def
    by (cases "split_on NL fileDiff")
       (auto simp: hd_conv_nth split: option.splits nat.splits if_splits)
qed

text \<open>
  The reducer over segments none of which throws: the value of a path is the body of the
  last segment that gives this path.
\<close>

lemma snoc_eq_split:
  "(segs @ [x] = pre @ seg # post) \<longleftrightarrow>
      (post = [] \<and> pre = segs \<and> seg = x)
      \<or> (\<exists>post0. post = post0 @ [x] \<and> segs = pre @ seg # post0)"
  by (cases post rule: rev_cases) auto

lemma last_entry_snoc:
  assumes x: "parseFileDiff x = Inr entry"
  shows "(\<exists>pre seg post. segs @ [x] = pre @ seg # post
              \<and> parseFileDiff seg = Inr (Some (p, b))
              \<and> (\<forall>s\<in>set post. \<forall>b'. parseFileDiff s \<noteq> Inr (Some (p, b'))))
     \<longleftrightarrow> (if \<exists>b'. entry = Some (p, b') then entry = Some (p, b)
          else (\<exists>pre seg post. segs = pre @ seg # post
              \<and> parseFileDiff seg = Inr (Some (p, b))
              \<and> (\<forall>s\<in>set post. \<forall>b'. parseFileDiff s \<noteq> Inr (Some (p, b')))))"
    (is "?L \<longleftrightarrow> ?R")
proof
  assume ?L
  then obtain pre seg post where
    eq: "segs @ [x] = pre @ seg # post" and
    seg: "parseFileDiff seg = Inr (Some (p, b))" and
    post: "\<forall>s\<in>set post. \<forall>b'. parseFileDiff s \<noteq> Inr (Some (p, b'))"
    by blast
  from eq consider (last) "post = []" "pre = segs" "seg = x"
    | (inner) post0 where "post = post0 @ [x]" "segs = pre @ seg # post0"
    unfolding snoc_eq_split by blast
  then show ?R
  proof cases
    case last
    with seg x show ?thesis
      by simp
  next
    case inner
    from inner(1) post have nx: "\<forall>b'. parseFileDiff x \<noteq> Inr (Some (p, b'))"
      by simp
    with x have "\<not> (\<exists>b'. entry = Some (p, b'))"
      by auto
    moreover from inner post have "\<forall>s\<in>set post0. \<forall>b'. parseFileDiff s \<noteq> Inr (Some (p, b'))"
      by simp
    ultimately show ?thesis
      using inner(2) seg by auto
  qed
next
  assume r: ?R
  show ?L
  proof (cases "\<exists>b'. entry = Some (p, b')")
    case True
    with r have "entry = Some (p, b)"
      by simp
    with x have "segs @ [x] = segs @ x # []" "parseFileDiff x = Inr (Some (p, b))"
      by simp_all
    then show ?thesis
      by (metis empty_iff empty_set)
  next
    case False
    with r obtain pre seg post where
      eq: "segs = pre @ seg # post" and
      seg: "parseFileDiff seg = Inr (Some (p, b))" and
      post: "\<forall>s\<in>set post. \<forall>b'. parseFileDiff s \<noteq> Inr (Some (p, b'))"
      by auto
    from False x have "\<forall>b'. parseFileDiff x \<noteq> Inr (Some (p, b'))"
      by auto
    with post have "\<forall>s\<in>set (post @ [x]). \<forall>b'. parseFileDiff s \<noteq> Inr (Some (p, b'))"
      by simp
    moreover from eq have "segs @ [x] = pre @ seg # (post @ [x])"
      by simp
    ultimately show ?thesis
      using seg by blast
  qed
qed

lemma foldl_diffReducer_last:
  assumes "\<forall>seg\<in>set segs. \<exists>entry. parseFileDiff seg = Inr entry"
  shows "\<exists>m. foldl diffReducer (Inr Map.empty) segs = Inr m
     \<and> (\<forall>p b. m p = Some b \<longleftrightarrow>
           (\<exists>pre seg post. segs = pre @ seg # post
              \<and> parseFileDiff seg = Inr (Some (p, b))
              \<and> (\<forall>s\<in>set post. \<forall>b'. parseFileDiff s \<noteq> Inr (Some (p, b')))))"
  using assms
proof (induction segs rule: rev_induct)
  case Nil
  show ?case by simp
next
  case (snoc x segs)
  from snoc.prems have "\<forall>seg\<in>set segs. \<exists>entry. parseFileDiff seg = Inr entry"
    by simp
  from snoc.IH [OF this] obtain m where
    m: "foldl diffReducer (Inr Map.empty) segs = Inr m" and
    v: "\<And>p b. m p = Some b \<longleftrightarrow>
           (\<exists>pre seg post. segs = pre @ seg # post
              \<and> parseFileDiff seg = Inr (Some (p, b))
              \<and> (\<forall>s\<in>set post. \<forall>b'. parseFileDiff s \<noteq> Inr (Some (p, b'))))"
    by blast
  from snoc.prems obtain entry where entry: "parseFileDiff x = Inr entry"
    by auto
  define m' where "m' = (case entry of None \<Rightarrow> m | Some (k, body) \<Rightarrow> m(k \<mapsto> body))"
  have step: "foldl diffReducer (Inr Map.empty) (segs @ [x]) = Inr m'"
    by (simp add: m diffReducer_def entry m'_def split: option.splits)
  have "m' p = Some b \<longleftrightarrow>
      (if \<exists>b'. entry = Some (p, b') then entry = Some (p, b) else m p = Some b)" for p b
    by (cases entry) (auto simp: m'_def)
  then have "m' p = Some b \<longleftrightarrow>
           (\<exists>pre seg post. segs @ [x] = pre @ seg # post
              \<and> parseFileDiff seg = Inr (Some (p, b))
              \<and> (\<forall>s\<in>set post. \<forall>b'. parseFileDiff s \<noteq> Inr (Some (p, b'))))" for p b
    unfolding last_entry_snoc [OF entry] v by simp
  with step show ?case
    by blast
qed

text \<open>
  A segment whose first line starting with \<open>+++\<close> is \<open>+++ b/\<close> and a path, or comes
  right after a line \<open>--- a/\<close> and a path: the reducer does not throw, and adds this
  path with the trimmed text after the line.
\<close>

lemma parseFileDiff_headers:
  assumes "\<forall>i. findIndex (prefix ''+++'') (split_on NL seg) = Some i \<longrightarrow>
             prefix ''+++ b/'' (split_on NL seg ! i)
             \<or> (\<exists>j. i = Suc j \<and> prefix ''--- a/'' (split_on NL seg ! j))"
  shows "(\<exists>entry. parseFileDiff seg = Inr entry)
     \<and> (parseFileDiff seg = Inr (Some (p, b)) \<longleftrightarrow>
          (\<exists>i. findIndex (prefix ''+++'') (split_on NL seg) = Some i
             \<and> (split_on NL seg ! i = ''+++ b/'' @ p
                  \<or> (\<not> prefix ''+++ b/'' (split_on NL seg ! i)
                      \<and> (\<exists>j. i = Suc j \<and> split_on NL seg ! j = ''--- a/'' @ p)))
             \<and> b = trim (join [NL] (drop (i + 1) (split_on NL seg)))))"
proof (cases "findIndex (prefix ''+++'') (split_on NL seg)")
  case None
  then show ?thesis
    by (simp add: parseFileDiff_def)
next
  case (Some i)
  define ls where "ls = split_on NL seg"
  define body where "body = trim (join [NL] (drop (i + 1) ls))"
  have strip: "l = h @ q \<longleftrightarrow> q = drop 6 l" if "prefix h l" "length h = 6" for h l q :: string
    using that by (auto simp: prefix_def)
  have found: "findIndex (prefix ''+++'') ls = Some i"
    using Some by (simp add: ls_def)
  show ?thesis
  proof (cases "prefix ''+++ b/'' (ls ! i)")
    case True
    have parse: "parseFileDiff seg = Inr (Some (drop 6 (ls ! i), body))"
      using Some True by (simp add: parseFileDiff_def Let_def ls_def body_def)
    have path: "ls ! i = ''+++ b/'' @ p \<longleftrightarrow> p = drop 6 (ls ! i)"
      using True by (intro strip) simp_all
    have "parseFileDiff seg = Inr (Some (p, b)) \<longleftrightarrow> p = drop 6 (ls ! i) \<and> b = body"
      unfolding parse by auto
    also have "\<dots> \<longleftrightarrow> (\<exists>i'. findIndex (prefix ''+++'') ls = Some i'
             \<and> (ls ! i' = ''+++ b/'' @ p
                  \<or> (\<not> prefix ''+++ b/'' (ls ! i')
                      \<and> (\<exists>j. i' = Suc j \<and> ls ! j = ''--- a/'' @ p)))
             \<and> b = trim (join [NL] (drop (i' + 1) ls)))"
      unfolding found using True path by (auto simp: body_def)
    finally show ?thesis
      using parse unfolding ls_def by blast
  next
    case False
    with assms Some obtain j where j: "i = Suc j" "prefix ''--- a/'' (ls ! j)"
      unfolding ls_def by blast
    have parse: "parseFileDiff seg = Inr (Some (drop 6 (ls ! j), body))"
      using Some False j(1) by (simp add: parseFileDiff_def Let_def ls_def body_def)
    have path: "ls ! j = ''--- a/'' @ p \<longleftrightarrow> p = drop 6 (ls ! j)"
      using j(2) by (intro strip) simp_all
    have "parseFileDiff seg = Inr (Some (p, b)) \<longleftrightarrow> p = drop 6 (ls ! j) \<and> b = body"
      unfolding parse by auto
    also have "\<dots> \<longleftrightarrow> (\<exists>i'. findIndex (prefix ''+++'') ls = Some i'
             \<and> (ls ! i' = ''+++ b/'' @ p
                  \<or> (\<not> prefix ''+++ b/'' (ls ! i')
                      \<and> (\<exists>j. i' = Suc j \<and> ls ! j = ''--- a/'' @ p)))
             \<and> b = trim (join [NL] (drop (i' + 1) ls)))"
      unfolding found using False path j(1) by (auto simp: body_def)
    finally show ?thesis
      using parse unfolding ls_def by blast
  qed
qed

text \<open>
  Where the parser is right. For a diff text in which the first line starting with
  \<open>+++\<close> of every per-file segment that has one is \<open>+++ b/\<close> followed by the file
  path, or comes right after the line \<open>--- a/\<close> followed by the file path, the parser
  returns a mapping. Its keys are exactly these file paths: a segment without a line
  starting with \<open>+++\<close> (a binary file) gives no key. The value of a path is the trimmed
  text after that line, in the last segment of this path.
\<close>

lemma parseGitDiffOutput_plain_headers:
  assumes "\<forall>seg\<in>set (diffSegments string).
             \<forall>i. findIndex (prefix ''+++'') (split_on NL seg) = Some i \<longrightarrow>
               prefix ''+++ b/'' (split_on NL seg ! i)
               \<or> (\<exists>j. i = Suc j \<and> prefix ''--- a/'' (split_on NL seg ! j))"
  shows "\<exists>resultDict.
      parseGitDiffOutput string = Inr resultDict
    \<and> (\<forall>p. p \<in> dom resultDict \<longleftrightarrow>
          (\<exists>seg\<in>set (diffSegments string).
             \<exists>i. findIndex (prefix ''+++'') (split_on NL seg) = Some i
               \<and> (split_on NL seg ! i = ''+++ b/'' @ p
                    \<or> (\<not> prefix ''+++ b/'' (split_on NL seg ! i)
                        \<and> (\<exists>j. i = Suc j \<and> split_on NL seg ! j = ''--- a/'' @ p)))))
    \<and> (\<forall>p body. resultDict p = Some body \<longleftrightarrow>
          (\<exists>pre seg post.
             diffSegments string = pre @ seg # post
           \<and> (\<exists>i. findIndex (prefix ''+++'') (split_on NL seg) = Some i
                 \<and> (split_on NL seg ! i = ''+++ b/'' @ p
                      \<or> (\<not> prefix ''+++ b/'' (split_on NL seg ! i)
                          \<and> (\<exists>j. i = Suc j \<and> split_on NL seg ! j = ''--- a/'' @ p)))
                 \<and> body = trim (join [NL] (drop (i + 1) (split_on NL seg))))
           \<and> (\<forall>s\<in>set post.
                 \<not> (\<exists>i. findIndex (prefix ''+++'') (split_on NL s) = Some i
                       \<and> (split_on NL s ! i = ''+++ b/'' @ p
                            \<or> (\<not> prefix ''+++ b/'' (split_on NL s ! i)
                                \<and> (\<exists>j. i = Suc j \<and> split_on NL s ! j = ''--- a/'' @ p)))))))"
proof -
  define segs where "segs = diffSegments string"
  define named where "named = (\<lambda>seg p.
      \<exists>i. findIndex (prefix ''+++'') (split_on NL seg) = Some i
        \<and> (split_on NL seg ! i = ''+++ b/'' @ p
             \<or> (\<not> prefix ''+++ b/'' (split_on NL seg ! i)
                 \<and> (\<exists>j. i = Suc j \<and> split_on NL seg ! j = ''--- a/'' @ p))))"
  define entry where "entry = (\<lambda>seg p b.
      \<exists>i. findIndex (prefix ''+++'') (split_on NL seg) = Some i
        \<and> (split_on NL seg ! i = ''+++ b/'' @ p
             \<or> (\<not> prefix ''+++ b/'' (split_on NL seg ! i)
                 \<and> (\<exists>j. i = Suc j \<and> split_on NL seg ! j = ''--- a/'' @ p)))
        \<and> b = trim (join [NL] (drop (i + 1) (split_on NL seg))))"
  have named: "named seg p \<longleftrightarrow> (\<exists>b. entry seg p b)" for seg p
    unfolding named_def entry_def by blast
  have ok: "\<exists>e. parseFileDiff seg = Inr e"
    and iff: "parseFileDiff seg = Inr (Some (p, b)) \<longleftrightarrow> entry seg p b"
    if "seg \<in> set segs" for seg p b
    using parseFileDiff_headers [of seg p b] assms that unfolding segs_def entry_def by blast+
  from ok have "\<forall>seg\<in>set segs. \<exists>e. parseFileDiff seg = Inr e"
    by blast
  from foldl_diffReducer_last [OF this] obtain m where
    m: "parseGitDiffOutput string = Inr m" and
    v: "\<And>p b. m p = Some b \<longleftrightarrow>
           (\<exists>pre seg post. segs = pre @ seg # post
              \<and> parseFileDiff seg = Inr (Some (p, b))
              \<and> (\<forall>s\<in>set post. \<forall>b'. parseFileDiff s \<noteq> Inr (Some (p, b'))))"
    unfolding parseGitDiffOutput_def segs_def by blast
  have value_iff: "m p = Some b \<longleftrightarrow>
      (\<exists>pre seg post. segs = pre @ seg # post \<and> entry seg p b
         \<and> (\<forall>s\<in>set post. \<not> named s p))" for p b
  proof -
    have "parseFileDiff seg = Inr (Some (p, b)) \<and>
          (\<forall>s\<in>set post. \<forall>b'. parseFileDiff s \<noteq> Inr (Some (p, b')))
        \<longleftrightarrow> entry seg p b \<and> (\<forall>s\<in>set post. \<not> named s p)"
      if "segs = pre @ seg # post" for pre seg post
    proof -
      from that have "seg \<in> set segs" "\<forall>s\<in>set post. s \<in> set segs"
        by simp_all
      then show ?thesis
        using iff named by blast
    qed
    then show ?thesis
      unfolding v by blast
  qed
  have key_iff: "p \<in> dom m \<longleftrightarrow> (\<exists>seg\<in>set segs. named seg p)" for p
  proof
    assume "p \<in> dom m"
    then obtain b where "m p = Some b"
      by blast
    then obtain pre seg post where "segs = pre @ seg # post" "entry seg p b"
      unfolding value_iff by blast
    then have "seg \<in> set segs" "named seg p"
      by (auto simp: named)
    then show "\<exists>seg\<in>set segs. named seg p"
      by blast
  next
    assume "\<exists>seg\<in>set segs. named seg p"
    from split_list_last_prop [OF this] obtain pre seg post where
      "segs = pre @ seg # post" "named seg p" "\<forall>s\<in>set post. \<not> named s p"
      by blast
    then obtain b where "m p = Some b"
      unfolding value_iff named by blast
    then show "p \<in> dom m"
      by blast
  qed
  from m key_iff value_iff show ?thesis
    unfolding named_def entry_def segs_def by blast
qed

lemma diffSegments_threeFiles:
  "diffSegments threeFiles = [fooSegment, imgSegment, goneSegment]"
  by (simp add: diffSegments_def threeFiles_def fooSegment_def imgSegment_def goneSegment_def)

lemma parseFileDiff_threeFiles:
  "parseFileDiff fooSegment =
     Inr (Some (''foo.txt'', ''@@ -1 +1 @@'' @ [NL] @ ''-old'' @ [NL] @ ''+new''))"
  "parseFileDiff imgSegment = Inr None"
  "parseFileDiff goneSegment =
     Inr (Some (''gone.txt'', ''@@ -1 +0,0 @@'' @ [NL] @ ''-bye''))"
  by (simp_all add: parseFileDiff_def trim_def is_ws_def fooSegment_def imgSegment_def
      goneSegment_def)

lemma headers_threeFiles:
  "findIndex (prefix ''+++'') (split_on NL fooSegment) = Some 3"
  "split_on NL fooSegment ! 3 = ''+++ b/foo.txt''"
  "findIndex (prefix ''+++'') (split_on NL imgSegment) = None"
  "findIndex (prefix ''+++'') (split_on NL goneSegment) = Some 4"
  "split_on NL goneSegment ! 3 = ''--- a/gone.txt''"
  by (simp_all add: fooSegment_def imgSegment_def goneSegment_def)

lemma threeFiles_headers:
  "\<forall>seg\<in>set (diffSegments threeFiles).
      \<forall>i. findIndex (prefix ''+++'') (split_on NL seg) = Some i \<longrightarrow>
        prefix ''+++ b/'' (split_on NL seg ! i)
        \<or> (\<exists>j. i = Suc j \<and> prefix ''--- a/'' (split_on NL seg ! j))"
proof -
  have "4 = Suc 3 \<and> prefix ''--- a/'' (split_on NL goneSegment ! 3)"
    by (simp add: headers_threeFiles)
  then have "\<exists>j. 4 = Suc j \<and> prefix ''--- a/'' (split_on NL goneSegment ! j)"
    by (rule exI)
  then show ?thesis
    by (simp add: diffSegments_threeFiles headers_threeFiles)
qed

text \<open>The diff of a changed, a binary and a removed file.\<close>

lemma parseGitDiffOutput_threeFiles:
  "\<exists>resultDict.
      parseGitDiffOutput threeFiles = Inr resultDict
    \<and> dom resultDict = {''foo.txt'', ''gone.txt''}
    \<and> resultDict ''foo.txt'' = Some (''@@ -1 +1 @@'' @ [NL] @ ''-old'' @ [NL] @ ''+new'')
    \<and> resultDict ''gone.txt'' = Some (''@@ -1 +0,0 @@'' @ [NL] @ ''-bye'')"
proof -
  from parseGitDiffOutput_plain_headers [OF threeFiles_headers]
  have "\<exists>resultDict. parseGitDiffOutput threeFiles = Inr resultDict"
    by (elim exE conjE, intro exI)
  then obtain resultDict where r: "parseGitDiffOutput threeFiles = Inr resultDict" ..
  define expected :: "string \<rightharpoonup> string" where
    "expected = [''foo.txt'' \<mapsto> ''@@ -1 +1 @@'' @ [NL] @ ''-old'' @ [NL] @ ''+new'',
                 ''gone.txt'' \<mapsto> ''@@ -1 +0,0 @@'' @ [NL] @ ''-bye'']"
  have "parseGitDiffOutput threeFiles = Inr expected"
    by (simp add: parseGitDiffOutput_def diffSegments_threeFiles diffReducer_def
        parseFileDiff_threeFiles expected_def)
  with r have "Inr resultDict = (Inr expected :: js_error + (string \<rightharpoonup> string))"
    by (rule trans [OF sym])
  then have eq: "resultDict = expected"
    by (simp only: sum.inject)
  have "dom expected = {''foo.txt'', ''gone.txt''}"
    "expected ''foo.txt'' = Some (''@@ -1 +1 @@'' @ [NL] @ ''-old'' @ [NL] @ ''+new'')"
    "expected ''gone.txt'' = Some (''@@ -1 +0,0 @@'' @ [NL] @ ''-bye'')"
    by (simp_all add: expected_def insert_commute)
  with r show ?thesis
    unfolding eq by blast
qed

lemma diffSegments_quotedNames: "diffSegments quotedNames = [cafeSegment, theSegment]"
  by (simp add: diffSegments_def quotedNames_def cafeSegment_def theSegment_def)

lemma parseFileDiff_quotedNames:
  "parseFileDiff cafeSegment = Inr (Some (''ev/null'', ''@@ -0,0 +1 @@'' @ [NL] @ ''+one''))"
  "parseFileDiff theSegment = Inr (Some (''ev/null'', ''@@ -0,0 +1 @@'' @ [NL] @ ''+two''))"
  by (simp_all add: parseFileDiff_def trim_def is_ws_def cafeSegment_def theSegment_def)

text \<open>
  Claim C5, at an input where it fails. The text is the diff of two new files whose
  names have a letter outside ASCII: git writes such a name between double quotes, the
  letter as octal escapes. The keys should be the paths of the two files. In each
  segment the line that starts with \<open>+++\<close> does not start with \<open>+++ b/\<close>, a double
  quote comes first, so the segment is taken for a removed file; the line before it is
  \<open>--- /dev/null\<close>, of which six characters are dropped. The result has the one key
  \<open>ev/null\<close>, the path of neither file, and the body of the first file is lost.
\<close>

theorem parseGitDiffOutput_quoted_names:
  "\<exists>resultDict.
      parseGitDiffOutput quotedNames = Inr resultDict
    \<and> dom resultDict = {''ev/null''}
    \<and> resultDict ''ev/null'' = Some (''@@ -0,0 +1 @@'' @ [NL] @ ''+two'')"
proof -
  define result :: "string \<rightharpoonup> string" where
    "result = [''ev/null'' \<mapsto> ''@@ -0,0 +1 @@'' @ [NL] @ ''+one'',
               ''ev/null'' \<mapsto> ''@@ -0,0 +1 @@'' @ [NL] @ ''+two'']"
  have "parseGitDiffOutput quotedNames = Inr result"
    by (simp add: parseGitDiffOutput_def diffSegments_quotedNames diffReducer_def
        parseFileDiff_quotedNames result_def)
  moreover have "dom result = {''ev/null''}"
    "result ''ev/null'' = Some (''@@ -0,0 +1 @@'' @ [NL] @ ''+two'')"
    by (simp_all add: result_def)
  ultimately show ?thesis
    by blast
qed

section \<open>The filter of the copy\<close>

lemma filterFunc_replace_false_missing:
  "replace file = Some False \<Longrightarrow> lstat fs destFile = None \<Longrightarrow>
     filterFunc matches file fs srcFile (Some destFile) = True"
  by (simp add: filterFunc_def)

lemma filterFunc_replace_false_directory:
  "replace file = Some False \<Longrightarrow> lstat fs destFile = Some (Dir es) \<Longrightarrow>
     filterFunc matches file fs srcFile (Some destFile) = True"
  by (simp add: filterFunc_def)

text \<open>
  Claim C3, at an input where it fails. The rule has \<open>replace\<close> false and the exclude
  pattern \<open>a.txt\<close>; the source file \<open>src/a.txt\<close> matches the pattern and its
  destination \<open>dest/a.txt\<close> does not exist. The filter returns true for it, and the
  copy of the directory writes \<open>dest/a.txt\<close>. With \<open>replace\<close> not set the filter
  returns false for the same file.
\<close>

theorem filterFunc_missing_dest_not_excluded:
  "list_ex (\<lambda>pattern. literalMatch pattern ''src/a.txt'') [''a.txt'']
   \<and> lstat docsTree ''dest/a.txt'' = None
   \<and> filterFunc literalMatch (plainRule\<lparr>replace := Some False, excludeFilePatterns := [''a.txt'']\<rparr>)
         docsTree ''src/a.txt'' (Some ''dest/a.txt'') = True
   \<and> filterFunc literalMatch (plainRule\<lparr>excludeFilePatterns := [''a.txt'']\<rparr>)
         docsTree ''src/a.txt'' (Some ''dest/a.txt'') = False
   \<and> copy literalMatch verbatim ''src'' ''dest'' True
         (plainRule\<lparr>replace := Some False, excludeFilePatterns := [''a.txt'']\<rparr>) docsTree =
       Inr (Dir [(''src'', Dir [(''a.txt'', File ''new a''),
                                (''docs'', Dir [(''guide.md'', File ''guide'')])]),
                 (''dest'', Dir [(''docs'', Dir [(''guide.md'', File ''guide'')]),
                                 (''a.txt'', File ''new a'')])])"
  by (simp add: copy_def plainRule_def docsTree_def fs_copy_def lstat_def resolve_def
      checkPaths_def filterFunc_def existsSync_def path_join_def path_normalize_def
      literalMatch_def Let_def)

text \<open>
  Claim C7, as amended. When \<open>replace\<close> is not false, or the destination is an existing
  file, a source path that matches an exclude pattern is excluded, whether or not it
  matches an include pattern: the exclude patterns are checked first. With \<open>replace\<close>
  false, a destination that is an existing directory is kept before any pattern is
  looked at.
\<close>

theorem filterFunc_exclude_before_include:
  assumes "list_ex (\<lambda>pattern. matches pattern srcFile) (excludeFilePatterns file)"
    and "replace file \<noteq> Some False \<or> (\<exists>d c. destFile = Some d \<and> lstat fs d = Some (File c))"
  shows "filterFunc matches file fs srcFile destFile = False"
  using assms by (auto simp: filterFunc_def Let_def existsSync_def split: option.splits)

text \<open>
  A path that matches an exclude pattern and an include pattern, with a file at its
  destination: once with \<open>replace\<close> not set and once with \<open>replace\<close> false.
\<close>

theorem filterFunc_exclude_before_include_witness:
  "list_ex (\<lambda>pattern. literalMatch pattern ''src/a.txt'') [''a.txt'']
   \<and> list_ex (\<lambda>pattern. literalMatch pattern ''src/a.txt'') [''src'']
   \<and> filterFunc literalMatch
         (plainRule\<lparr>excludeFilePatterns := [''a.txt''], includeFilePatterns := [''src'']\<rparr>)
         syncTree ''src/a.txt'' (Some ''dest/a.txt'') = False
   \<and> lstat syncTree ''dest/a.txt'' = Some (File ''old a'')
   \<and> filterFunc literalMatch
         (plainRule\<lparr>replace := Some False, excludeFilePatterns := [''a.txt''],
            includeFilePatterns := [''src'']\<rparr>)
         syncTree ''src/a.txt'' (Some ''dest/a.txt'') = False"
proof -
  have m: "list_ex (\<lambda>pattern. literalMatch pattern ''src/a.txt'') [''a.txt'']"
    "list_ex (\<lambda>pattern. literalMatch pattern ''src/a.txt'') [''src'']"
    by (simp_all add: literalMatch_def)
  have l: "lstat syncTree ''dest/a.txt'' = Some (File ''old a'')"
    by (simp add: lstat_def resolve_def syncTree_def)
  from filterFunc_exclude_before_include [of literalMatch "''src/a.txt''"
      "plainRule\<lparr>excludeFilePatterns := [''a.txt''], includeFilePatterns := [''src'']\<rparr>"
      "Some ''dest/a.txt''" syncTree]
    filterFunc_exclude_before_include [of literalMatch "''src/a.txt''"
      "plainRule\<lparr>replace := Some False, excludeFilePatterns := [''a.txt''],
         includeFilePatterns := [''src'']\<rparr>"
      "Some ''dest/a.txt''" syncTree]
    m l
  show ?thesis
    by (simp add: plainRule_def)
qed

text \<open>
  Claim C7 as stated fails for a directory: \<open>src/docs\<close> matches the exclude pattern
  \<open>docs\<close> and the include pattern \<open>src\<close>, the destination \<open>dest/docs\<close> is a
  directory, and with \<open>replace\<close> false the filter returns true.
\<close>

theorem filterFunc_exclude_before_include_counterexample:
  "list_ex (\<lambda>pattern. literalMatch pattern ''src/docs'') [''docs'']
   \<and> list_ex (\<lambda>pattern. literalMatch pattern ''src/docs'') [''src'']
   \<and> filterFunc literalMatch
         (plainRule\<lparr>replace := Some False, excludeFilePatterns := [''docs''],
            includeFilePatterns := [''src'']\<rparr>)
         docsTree ''src/docs'' (Some ''dest/docs'') = True"
  by (simp add: filterFunc_def literalMatch_def plainRule_def docsTree_def lstat_def resolve_def)

section \<open>The template branch\<close>

lemma filterFunc_no_dest:
  "replace file = Some False \<Longrightarrow> filterFunc matches file fs srcFile None = True"
  by (simp add: filterFunc_def)

text \<open>
  In the template branch of a directory rule the filter is called without a destination.
  When \<open>replace\<close> is false it returns true for every path, whatever the patterns,
  the exclusions and the matching are; the loop over the listing skips no path and does
  the same for every setting of \<open>exclude\<close>, \<open>excludeFilePatterns\<close> and
  \<open>includeFilePatterns\<close>.
\<close>

lemma renderFiles_ignores_filters:
  assumes "replace rule = Some False"
  shows "filterFunc matches rule fs srcFile None = True
       \<and> renderFiles matches render rule ctx src dest srcFileList fs =
           renderFiles matches' render
             (rule\<lparr>exclude := ex, excludeFilePatterns := ep, includeFilePatterns := ip\<rparr>)
             ctx src dest srcFileList fs"
proof
  show "filterFunc matches rule fs srcFile None = True"
    using assms by (rule filterFunc_no_dest)
  show "renderFiles matches render rule ctx src dest srcFileList fs =
      renderFiles matches' render
        (rule\<lparr>exclude := ex, excludeFilePatterns := ep, includeFilePatterns := ip\<rparr>)
        ctx src dest srcFileList fs"
  proof (induction srcFileList arbitrary: fs)
    case Nil
    show ?case by simp
  next
    case (Cons srcFile srcFileList)
    have "filterFunc matches rule fs srcFile None"
      "filterFunc matches' (rule\<lparr>exclude := ex, excludeFilePatterns := ep,
          includeFilePatterns := ip\<rparr>) fs srcFile None"
      using assms by (simp_all add: filterFunc_no_dest)
    then show ?case
      by (simp add: Cons.IH Let_def split: sum.splits)
  qed
qed


text \<open>
  Where the source directory is the working directory itself, the listing holds the
  paths relative to it: \<open>a.txt\<close> matches the exclude pattern and is rendered all
  the same.
\<close>

lemma renderFiles_working_directory:
  "filterFunc literalMatch
       (plainRule\<lparr>template := Some (), replace := Some False, excludeFilePatterns := [''a.txt'']\<rparr>)
       (Dir [(''a.txt'', File ''text'')]) ''a.txt'' None = True
   \<and> renderFiles literalMatch verbatim
       (plainRule\<lparr>template := Some (), replace := Some False, excludeFilePatterns := [''a.txt'']\<rparr>)
       () ''.'' ''out'' [''a.txt''] (Dir [(''a.txt'', File ''text'')]) =
     Inr (Dir [(''a.txt'', File ''text''), (''out'', Dir [(''a.txt'', File ''text'')])])"
  using renderFiles_ignores_filters [where
      rule = "plainRule\<lparr>template := Some (), replace := Some False,
                excludeFilePatterns := [''a.txt'']\<rparr>"
      and matches = literalMatch and fs = "Dir [(''a.txt'', File ''text'')]"
      and srcFile = "''a.txt''" and render = verbatim and ctx = "()" and src = "''.''"
      and dest = "''out''" and srcFileList = "[''a.txt'']" and matches' = literalMatch
      and ex = None and ep = "[]" and ip = "[]"]
  by (simp add: plainRule_def filterFunc_def write_file_def lstat_def resolve_def
      path_join_def path_normalize_def verbatim_def outputFile_def Let_def)

text \<open>
  Claim C10, at an input where it fails. The rule has a template and \<open>replace\<close>
  false; the source directory \<open>src\<close> holds \<open>a.txt\<close>. The filter returns true
  for the listed path \<open>src/a.txt\<close>, but the template is looked for at
  \<open>src/src/a.txt\<close>, the source directory joined with a path that holds it already.
  That file does not exist and the copy ends with the error of the template engine:
  \<open>a.txt\<close> is not rendered and nothing is written.
\<close>

theorem template_directory_not_rendered:
  "walk syncTree ''src'' = Inr [''src/a.txt'']
   \<and> filterFunc literalMatch (plainRule\<lparr>template := Some (), replace := Some False\<rparr>)
         syncTree ''src/a.txt'' None = True
   \<and> path_join ''src'' ''src/a.txt'' = ''src/src/a.txt''
   \<and> lstat syncTree ''src/src/a.txt'' = None
   \<and> copy literalMatch verbatim ''src'' ''dest'' True
         (plainRule\<lparr>template := Some (), replace := Some False\<rparr>) syncTree =
       Inl (Error ''template not found'')"
  by (simp add: copy_def walk_def plainRule_def syncTree_def lstat_def resolve_def
      filterFunc_def write_file_def path_join_def path_normalize_def Let_def)

section \<open>Orphaned files\<close>

text \<open>
  Claim C1, at the input it names. The source directory holds \<open>a.txt\<close>, the
  destination holds \<open>a.txt\<close> and \<open>b.txt\<close>, and the rule deletes orphaned files.
  The listings hold the paths joined with their directories, so no path of the
  destination is in the listing of the source, and the path removed for \<open>dest/b.txt\<close>
  is \<open>dest/dest/b.txt\<close>, which does not exist: after the copy \<open>b.txt\<close> is still
  in the destination.
\<close>

theorem copy_keeps_orphan:
  "walk syncTree ''src'' = Inr [''src/a.txt'']
   \<and> walk syncTree ''dest'' = Inr [''dest/a.txt'', ''dest/b.txt'']
   \<and> path_join ''dest'' ''dest/b.txt'' = ''dest/dest/b.txt''
   \<and> copy literalMatch verbatim ''src'' ''dest'' True (plainRule\<lparr>deleteOrphaned := True\<rparr>)
         syncTree =
       Inr (Dir [(''src'', Dir [(''a.txt'', File ''new a'')]),
                 (''dest'', Dir [(''a.txt'', File ''new a''), (''b.txt'', File ''old b'')])])"
  by (simp add: copy_def plainRule_def syncTree_def fs_copy_def lstat_def resolve_def
      checkPaths_def filterFunc_def existsSync_def path_join_def path_normalize_def
      walk_def fs_remove_def Let_def)


section \<open>Paths in normal form\<close>

lemma join_snoc: "segs \<noteq> [] \<Longrightarrow> join sep (segs @ [n]) = join sep segs @ sep @ n"
  by (induction sep segs rule: join.induct) auto

lemma split_on_append:
  "split_on c (a @ c # b) = split_on c a @ split_on c b"
proof (induction a)
  case Nil
  show ?case by simp
next
  case (Cons x a)
  show ?case
  proof (cases "x = c")
    case True
    with Cons show ?thesis by simp
  next
    case False
    obtain w ws where "split_on c a = w # ws"
      by (cases "split_on c a") auto
    with False Cons show ?thesis
      by simp
  qed
qed

lemma split_on_segment: "s \<in> set (split_on c p) \<Longrightarrow> c \<notin> set s"
proof (induction p arbitrary: s)
  case Nil
  then show ?case by simp
next
  case (Cons x p)
  obtain w ws where split: "split_on c p = w # ws"
    by (cases "split_on c p") auto
  with Cons.IH have "c \<notin> set w" "\<forall>t\<in>set ws. c \<notin> set t"
    by auto
  with Cons.prems split show ?case
    by (auto split: if_splits)
qed

lemma normalizeSegments_append:
  "normalizeSegments b (xs @ ys) res = normalizeSegments b ys (normalizeSegments b xs res)"
  by (induction xs arbitrary: res) auto

lemma normalizeSegments_proper:
  "list_all properName ss \<Longrightarrow> normalizeSegments b ss res = res @ ss"
  by (induction ss arbitrary: res) (auto simp: properName_def)

lemma properName_no_slash:
  assumes "properName n"
  shows "n \<noteq> [] \<and> hd n \<noteq> CHR ''/'' \<and> last n \<noteq> CHR ''/''"
proof -
  from assms have n: "n \<noteq> []" and s: "CHR ''/'' \<notin> set n"
    by (simp_all add: properName_def)
  from n have "hd n \<in> set n" "last n \<in> set n"
    by simp_all
  with n s show ?thesis
    by metis
qed

lemma dropWhile_butlast_subset: "set (dropWhile Q (butlast xs)) \<subseteq> set (dropWhile Q xs)"
  by (induction xs) (auto dest: in_set_butlastD)

lemma last_dropWhile: "dropWhile Q xs \<noteq> [] \<Longrightarrow> last (dropWhile Q xs) = last xs"
  by (induction xs) (auto split: if_splits)

lemma in_set_dropWhile: "x \<in> set xs \<Longrightarrow> Q x \<or> x \<in> set (dropWhile Q xs)"
  by (induction xs) auto

lemma normalSegments_Nil [simp]: "normalSegments b []"
  by (simp add: normalSegments_def)

lemma normalSegments_element:
  assumes "normalSegments b segs" "s \<in> set segs"
  shows "s \<noteq> [] \<and> CHR ''/'' \<notin> set s"
proof -
  from in_set_dropWhile [OF assms(2), of "\<lambda>s. s = ''..''"]
  have "s = ''..'' \<or> properName s"
    using assms(1) by (auto simp: normalSegments_def list_all_iff)
  then show ?thesis
    by (auto simp: properName_def)
qed

lemma normalSegments_snoc:
  assumes "normalSegments b segs" "properName n"
  shows "normalSegments b (segs @ [n])"
proof -
  from assms(2) have "n \<noteq> ''..''"
    by (simp add: properName_def)
  with assms show ?thesis
    by (auto simp: normalSegments_def dropWhile_append list_all_iff)
qed

lemma normalSegments_butlast:
  assumes "normalSegments b segs"
  shows "normalSegments b (butlast segs)"
  using assms dropWhile_butlast_subset [of "\<lambda>s. s = ''..''" segs]
  by (auto simp: normalSegments_def list_all_iff dest: in_set_butlastD)

lemma normalSegments_dots:
  assumes "normalSegments True segs" "segs = [] \<or> last segs = ''..''"
  shows "normalSegments True (segs @ [''..''])"
proof -
  have "dropWhile (\<lambda>s. s = ''..'') segs = []"
  proof (rule ccontr)
    assume ne: "dropWhile (\<lambda>s. s = ''..'') segs \<noteq> []"
    then have "segs \<noteq> []"
      by auto
    with assms(2) last_dropWhile [OF ne]
    have "last (dropWhile (\<lambda>s. s = ''..'') segs) = ''..''"
      by simp
    moreover from ne have "last (dropWhile (\<lambda>s. s = ''..'') segs)
        \<in> set (dropWhile (\<lambda>s. s = ''..'') segs)"
      by simp
    ultimately have "properName ''..''"
      using assms(1) by (auto simp: normalSegments_def list_all_iff)
    then show False
      by (simp add: properName_def)
  qed
  then have "\<forall>s\<in>set segs. s = ''..''"
    by (simp add: dropWhile_eq_Nil_conv)
  then show ?thesis
    by (simp add: normalSegments_def dropWhile_append)
qed

lemma normalizeSegments_normal:
  assumes "normalSegments b res" "\<forall>s\<in>set ss. CHR ''/'' \<notin> set s"
  shows "normalSegments b (normalizeSegments b ss res)"
  using assms
proof (induction ss arbitrary: res)
  case Nil
  then show ?case by simp
next
  case (Cons s ss)
  from Cons.prems(2) have rest: "\<forall>s\<in>set ss. CHR ''/'' \<notin> set s" and s: "CHR ''/'' \<notin> set s"
    by simp_all
  consider (skip) "s = [] \<or> s = ''.''"
    | (pop) "s = ''..''" "res \<noteq> [] \<and> last res \<noteq> ''..''"
    | (up) "s = ''..''" "\<not> (res \<noteq> [] \<and> last res \<noteq> ''..'')" "b"
    | (stay) "s = ''..''" "\<not> (res \<noteq> [] \<and> last res \<noteq> ''..'')" "\<not> b"
    | (push) "s \<noteq> []" "s \<noteq> ''.''" "s \<noteq> ''..''"
    by blast
  then show ?case
  proof cases
    case skip
    with Cons.IH [OF Cons.prems(1) rest] show ?thesis
      by auto
  next
    case pop
    with Cons.IH [OF normalSegments_butlast [OF Cons.prems(1)] rest] show ?thesis
      by simp
  next
    case up
    with Cons.prems(1) have "normalSegments b (res @ [''..''])"
      using normalSegments_dots [of res] by auto
    from Cons.IH [OF this rest] up show ?thesis
      by auto
  next
    case stay
    with Cons.IH [OF Cons.prems(1) rest] show ?thesis
      by auto
  next
    case push
    with s have "properName s"
      by (simp add: properName_def)
    from Cons.IH [OF normalSegments_snoc [OF Cons.prems(1) this] rest] push show ?thesis
      by simp
  qed
qed

lemma normalizeSegments_fixed:
  assumes "normalSegments b segs" "res = [] \<or> last res = ''..''"
  shows "normalizeSegments b segs res = res @ segs"
  using assms
proof (induction segs arbitrary: res)
  case Nil
  then show ?case by simp
next
  case (Cons s segs)
  show ?case
  proof (cases "s = ''..''")
    case True
    with Cons.prems(1) have b: b and rest: "normalSegments b segs"
      by (auto simp: normalSegments_def properName_def)
    from Cons.IH [OF rest, of "res @ [''..'']"] True b Cons.prems(2) show ?thesis
      by auto
  next
    case False
    with Cons.prems(1) have "list_all properName (s # segs)"
      by (simp add: normalSegments_def)
    then show ?thesis
      by (rule normalizeSegments_proper)
  qed
qed
lemma suffix_slash: "suffix ''/'' p \<longleftrightarrow> p \<noteq> [] \<and> last p = CHR ''/''"
  by (cases p rule: rev_cases) (auto simp: suffix_def)

lemma addTrailingSlash_prefix: "prefix dir (addTrailingSlash dir)"
  by (simp add: addTrailingSlash_def)

lemma join_normal_segments:
  assumes "normalSegments b segs" "segs \<noteq> []"
  shows "join ''/'' segs \<noteq> []"
    and "hd (join ''/'' segs) \<noteq> CHR ''/''"
    and "last (join ''/'' segs) \<noteq> CHR ''/''"
    and "split_on (CHR ''/'') (join ''/'' segs) = segs"
proof -
  from assms have h: "hd segs \<noteq> []" "CHR ''/'' \<notin> set (hd segs)"
    and l: "last segs \<noteq> []" "CHR ''/'' \<notin> set (last segs)"
    using normalSegments_element [of b segs "hd segs"]
      normalSegments_element [of b segs "last segs"] by simp_all
  from assms(2) h(1) show "join ''/'' segs \<noteq> []"
    by (rule join_Nil_iff)
  from h have "hd (hd segs) \<noteq> CHR ''/''"
    by (metis hd_in_set)
  with hd_join [OF assms(2) h(1)] show "hd (join ''/'' segs) \<noteq> CHR ''/''"
    by simp
  from l have "last (last segs) \<noteq> CHR ''/''"
    by (metis last_in_set)
  with last_join [OF assms(2) l(1)] show "last (join ''/'' segs) \<noteq> CHR ''/''"
    by simp
  from assms(1) have "\<forall>s\<in>set segs. CHR ''/'' \<notin> set s"
    using normalSegments_element by blast
  with assms(2) show "split_on (CHR ''/'') (join ''/'' segs) = segs"
    by (rule split_on_join)
qed

lemma path_normalize_segments:
  assumes "normalSegments (\<not> a) segs" "segs \<noteq> []"
  shows "path_normalize ((if a then ''/'' else []) @ join ''/'' segs)
           = (if a then ''/'' else []) @ join ''/'' segs"
proof -
  note j = join_normal_segments [OF assms]
  have fixed: "normalizeSegments (\<not> a) segs [] = segs"
    using normalizeSegments_fixed [OF assms(1), of "[]"] by simp
  show ?thesis
  proof (cases a)
    case True
    with fixed have "normalizeSegments False ([] # segs) [] = segs"
      by simp
    with True j show ?thesis
      by (simp add: path_normalize_def Let_def)
  next
    case False
    with fixed j show ?thesis
      by (simp add: path_normalize_def Let_def)
  qed
qed

lemma path_join_normal:
  assumes nd: "path_normalize dir = dir" "dir \<noteq> ''.''" "dir \<noteq> ''./''"
    and n: "properName n"
  shows "path_join dir n = addTrailingSlash dir @ n"
    and "path_normalize (path_join dir n) = path_join dir n"
    and "\<not> suffix ''/'' (path_join dir n)"
    and "path_join dir n \<noteq> ''.''"
    and "path_join dir n \<noteq> ''./''"
proof -
  define a where "a = (hd dir = CHR ''/'')"
  define segs where "segs = normalizeSegments (\<not> a) (split_on (CHR ''/'') dir) []"
  define joined where "joined = dir @ ''/'' @ n"
  from nd(1) have ne: "dir \<noteq> []"
    by (auto simp: path_normalize_def)
  from n have nn: "n \<noteq> []" "CHR ''/'' \<notin> set n"
    by (simp_all add: properName_def)
  from properName_no_slash [OF n] have ln: "last n \<noteq> CHR ''/''"
    by simp
  have "\<forall>s\<in>set (split_on (CHR ''/'') dir). CHR ''/'' \<notin> set s"
    by (blast dest: split_on_segment)
  with normalSegments_Nil have normal: "normalSegments (\<not> a) segs"
    unfolding segs_def by (rule normalizeSegments_normal)
  have "path_normalize dir
      = (if join ''/'' segs = []
         then (if a then ''/'' else if last dir = CHR ''/'' then ''./'' else ''.'')
         else (if a then ''/'' else []) @ join ''/'' segs
              @ (if last dir = CHR ''/'' then ''/'' else []))"
    using ne by (simp add: path_normalize_def a_def segs_def Let_def)
  then have shape: "dir
      = (if join ''/'' segs = []
         then (if a then ''/'' else if last dir = CHR ''/'' then ''./'' else ''.'')
         else (if a then ''/'' else []) @ join ''/'' segs
              @ (if last dir = CHR ''/'' then ''/'' else []))"
    unfolding nd(1) .
  have pj: "path_join dir n = path_normalize joined"
    using ne nn by (simp add: path_join_def joined_def)
  have split: "split_on (CHR ''/'') joined = split_on (CHR ''/'') dir @ [n]"
    using split_on_append [of "CHR ''/''" dir n] split_on_no_sep [OF nn(2)]
    by (simp add: joined_def)
  have "normalizeSegments (\<not> a) (split_on (CHR ''/'') joined) []
      = normalizeSegments (\<not> a) [n] segs"
    unfolding split normalizeSegments_append segs_def ..
  also from n have "\<dots> = segs @ [n]"
    by (simp add: properName_def)
  finally have segs': "normalizeSegments (\<not> a) (split_on (CHR ''/'') joined) [] = segs @ [n]" .
  have hj: "joined \<noteq> []" "(hd joined = CHR ''/'') = a" "last joined \<noteq> CHR ''/''"
    using ne nn ln by (simp_all add: joined_def a_def)
  have jn: "join ''/'' (segs @ [n]) \<noteq> []"
    by (rule join_last_not_Nil) (simp_all add: nn)
  have result: "path_join dir n = (if a then ''/'' else []) @ join ''/'' (segs @ [n])"
    unfolding pj path_normalize_def Let_def using hj segs' jn by simp
  have normal': "normalSegments (\<not> a) (segs @ [n])"
    using normal n by (rule normalSegments_snoc)
  show "path_normalize (path_join dir n) = path_join dir n"
    unfolding result by (rule path_normalize_segments [OF normal']) simp
  show joined_path: "path_join dir n = addTrailingSlash dir @ n"
  proof (cases "segs = []")
    case True
    with shape nd(2,3) have "a" "dir = ''/''"
      by (auto split: if_splits)
    with True result show ?thesis
      by (simp add: addTrailingSlash_def)
  next
    case False
    from join_normal_segments(1) [OF normal False] shape
    have dir: "dir = (if a then ''/'' else []) @ join ''/'' segs
              @ (if last dir = CHR ''/'' then ''/'' else [])"
      by simp
    have "addTrailingSlash dir
        = (if a then ''/'' else []) @ join ''/'' segs @ ''/''"
    proof (cases "last dir = CHR ''/''")
      case True
      with ne have "addTrailingSlash dir = dir"
        by (simp add: addTrailingSlash_def suffix_slash)
      with dir True show ?thesis
        by simp
    next
      case False
      with ne have "addTrailingSlash dir = dir @ ''/''"
        by (simp add: addTrailingSlash_def suffix_slash)
      with dir False show ?thesis
        by simp
    qed
    with result join_snoc [OF False, of "''/''" n] show ?thesis
      by simp
  qed
  have "0 < length (addTrailingSlash dir)"
    using ne by (simp add: addTrailingSlash_def)
  moreover from nn(1) have "0 < length n"
    by simp
  ultimately have "2 \<le> length (addTrailingSlash dir @ n)"
    unfolding length_append by arith
  then have long: "2 \<le> length (path_join dir n)"
    unfolding joined_path .
  from joined_path nn(1) ln have "last (path_join dir n) \<noteq> CHR ''/''"
    by simp
  with long show "\<not> suffix ''/'' (path_join dir n)"
    and "path_join dir n \<noteq> ''.''"
    and "path_join dir n \<noteq> ''./''"
    by (auto simp: suffix_slash)
qed

section \<open>The directory listing\<close>

lemma walkEntries_append_all:
  fixes fl0 :: "string list"
  shows "\<forall>fl. walkEntries dir es fl = fl @ walkEntries dir es []"
proof (induction dir es fl0 rule: walkEntries.induct)
  case (1 dir fileList)
  show ?case by simp
next
  case (2 dir name c files fileList)
  show ?case
  proof
    fix fl
    have "walkEntries dir ((name, File c) # files) fl
        = (fl @ [path_join dir name]) @ walkEntries dir files []"
      using "2.IH" by (metis walkEntries.simps(2))
    also have "\<dots> = fl @ walkEntries dir ((name, File c) # files) []"
      using "2.IH" by (metis append.assoc append_Nil walkEntries.simps(2))
    finally show "walkEntries dir ((name, File c) # files) fl
        = fl @ walkEntries dir ((name, File c) # files) []" .
  qed
next
  case (3 dir name es files fileList)
  show ?case
  proof
    fix fl
    have "walkEntries dir ((name, Dir es) # files) fl
        = (fl @ walkEntries (path_join dir name) es []) @ walkEntries dir files []"
      using "3.IH" by (metis walkEntries.simps(3))
    also have "\<dots> = fl @ walkEntries dir ((name, Dir es) # files) []"
      using "3.IH" by (metis append.assoc append_Nil walkEntries.simps(3))
    finally show "walkEntries dir ((name, Dir es) # files) fl
        = fl @ walkEntries dir ((name, Dir es) # files) []" .
  qed
qed

lemma walkEntries_append: "walkEntries dir es fl = fl @ walkEntries dir es []"
  using walkEntries_append_all by blast

lemma walkEntries_File:
  "walkEntries dir ((file, File c) # files) [] = path_join dir file # walkEntries dir files []"
  using walkEntries_append [of dir files "[path_join dir file]"] by simp

lemma walkEntries_Dir:
  "walkEntries dir ((file, Dir es) # files) []
     = walkEntries (path_join dir file) es [] @ walkEntries dir files []"
  using walkEntries_append [of dir files "walkEntries (path_join dir file) es []"] by simp

lemma walkEntries_prefix:
  fixes fl0 :: "string list"
  shows "path_normalize dir = dir \<and> dir \<noteq> ''.'' \<and> dir \<noteq> ''./'' \<longrightarrow> properEntries es \<longrightarrow>
          (\<forall>p\<in>set (walkEntries dir es []). prefix (addTrailingSlash dir) p)"
proof (induction dir es fl0 rule: walkEntries.induct)
  case (1 dir fileList)
  show ?case by simp
next
  case (2 dir name c files fileList)
  show ?case
  proof (intro impI)
    assume d: "path_normalize dir = dir \<and> dir \<noteq> ''.'' \<and> dir \<noteq> ''./''"
      and e: "properEntries ((name, File c) # files)"
    from e have n: "properName name" and rest: "properEntries files"
      by simp_all
    from d have nd: "path_normalize dir = dir" "dir \<noteq> ''.''" "dir \<noteq> ''./''"
      by simp_all
    from "2.IH" d rest
    have "\<forall>p\<in>set (walkEntries dir files []). prefix (addTrailingSlash dir) p"
      by blast
    moreover have "prefix (addTrailingSlash dir) (path_join dir name)"
      unfolding path_join_normal(1) [OF nd n] by simp
    ultimately show "\<forall>p\<in>set (walkEntries dir ((name, File c) # files) []).
        prefix (addTrailingSlash dir) p"
      unfolding walkEntries_File by simp
  qed
next
  case (3 dir name es files fileList)
  show ?case
  proof (intro impI)
    assume d: "path_normalize dir = dir \<and> dir \<noteq> ''.'' \<and> dir \<noteq> ''./''"
      and e: "properEntries ((name, Dir es) # files)"
    from e have n: "properName name" and sub: "properEntries es" and rest: "properEntries files"
      by simp_all
    from d have nd: "path_normalize dir = dir" "dir \<noteq> ''.''" "dir \<noteq> ''./''"
      by simp_all
    note j = path_join_normal [OF nd n]
    from "3.IH"(2) d rest
    have 1: "\<forall>p\<in>set (walkEntries dir files []). prefix (addTrailingSlash dir) p"
      by blast
    from "3.IH"(1) j(2,4,5) sub
    have "\<forall>p\<in>set (walkEntries (path_join dir name) es []).
        prefix (addTrailingSlash (path_join dir name)) p"
      by blast
    moreover from j(3)
    have "addTrailingSlash (path_join dir name) = path_join dir name @ ''/''"
      by (simp add: addTrailingSlash_def)
    then have "prefix (addTrailingSlash dir) (addTrailingSlash (path_join dir name))"
      by (simp add: j(1))
    ultimately
    have 2: "\<forall>p\<in>set (walkEntries (path_join dir name) es []). prefix (addTrailingSlash dir) p"
      using prefix_order.trans by blast
    from 1 2 show "\<forall>p\<in>set (walkEntries dir ((name, Dir es) # files) []).
        prefix (addTrailingSlash dir) p"
      unfolding walkEntries_Dir by auto
  qed
qed

lemma map_of_proper: "properEntries es \<Longrightarrow> map_of es s = Some n \<Longrightarrow> properTree n"
  by (induction es) (auto split: if_splits)

lemma fs_lookup_proper: "properTree n \<Longrightarrow> fs_lookup n segs = Some n' \<Longrightarrow> properTree n'"
proof (induction n segs rule: fs_lookup.induct)
  case (1 n)
  then show ?case by simp
next
  case (2 c s ss)
  then show ?case by simp
next
  case (3 es s ss)
  then show ?case
    by (auto split: option.splits dest: map_of_proper)
qed

lemma walk_prefix:
  assumes "properTree fs" "path_normalize dir = dir" "dir \<noteq> ''.''" "dir \<noteq> ''./''"
    "walk fs dir = Inr files"
  shows "\<forall>p\<in>set files. prefix (addTrailingSlash dir) p"
proof -
  from assms(5) obtain es where es: "lstat fs dir = Some (Dir es)"
    and files: "files = walkEntries dir es []"
    by (auto simp: walk_def split: option.splits fsnode.splits)
  from es assms(1) have "properTree (Dir es)"
    unfolding lstat_def by (rule fs_lookup_proper [rotated])
  then have "properEntries es"
    by simp
  with walkEntries_prefix assms(2,3,4) show ?thesis
    unfolding files by blast
qed

text \<open>
  Claim C9, as amended. For a directory \<open>dir\<close> of a proper tree that is written in
  normal form (\<open>path.normalize\<close> leaves it unchanged: relative or absolute, with a slash
  at its end or without) and is not \<open>.\<close> or \<open>./\<close>, every element of the listing
  \<open>walk(dir)\<close> begins with \<open>dir\<close>, and with \<open>addTrailingSlash(dir)\<close>: the listing
  holds the paths joined with \<open>dir\<close>, not the paths relative to it. The traversal is
  depth first: the files of a directory entry come, in their order, before those of the
  entries after it. The listings of two such directories, neither of which is the other
  or lies inside it, share no element, whatever the names of their files are.
\<close>

theorem walk_joined_paths:
  assumes "properTree fs"
    and "path_normalize dir = dir" and "dir \<noteq> ''.''" and "dir \<noteq> ''./''"
    and "walk fs dir = Inr files"
  shows "(\<forall>p\<in>set files. prefix dir p \<and> prefix (addTrailingSlash dir) p)
     \<and> (\<forall>fs' dir' files'.
          properTree fs' \<and> path_normalize dir' = dir' \<and> dir' \<noteq> ''.'' \<and> dir' \<noteq> ''./''
          \<and> walk fs' dir' = Inr files'
          \<and> \<not> prefix (addTrailingSlash dir) (addTrailingSlash dir')
          \<and> \<not> prefix (addTrailingSlash dir') (addTrailingSlash dir)
          \<longrightarrow> set files \<inter> set files' = {})
     \<and> (\<forall>d name c rest.
          walkEntries d ((name, File c) # rest) [] = path_join d name # walkEntries d rest [])
     \<and> (\<forall>d name sub rest.
          walkEntries d ((name, Dir sub) # rest) []
            = walkEntries (path_join d name) sub [] @ walkEntries d rest [])"
proof -
  have own: "\<forall>p\<in>set files. prefix (addTrailingSlash dir) p"
    using assms by (rule walk_prefix)
  have begins: "\<forall>p\<in>set files. prefix dir p \<and> prefix (addTrailingSlash dir) p"
  proof
    fix p
    assume "p \<in> set files"
    with own have "prefix (addTrailingSlash dir) p"
      by blast
    with addTrailingSlash_prefix [of dir]
    show "prefix dir p \<and> prefix (addTrailingSlash dir) p"
      using prefix_order.trans by blast
  qed
  have "set files \<inter> set files' = {}"
    if other: "properTree fs'" "path_normalize dir' = dir'" "dir' \<noteq> ''.''" "dir' \<noteq> ''./''"
      "walk fs' dir' = Inr files'"
      and apart: "\<not> prefix (addTrailingSlash dir) (addTrailingSlash dir')"
        "\<not> prefix (addTrailingSlash dir') (addTrailingSlash dir)"
    for fs' dir' files'
  proof (rule ccontr)
    assume "set files \<inter> set files' \<noteq> {}"
    then obtain p where "p \<in> set files" "p \<in> set files'"
      by blast
    with own walk_prefix [OF other]
    have "prefix (addTrailingSlash dir) p" "prefix (addTrailingSlash dir') p"
      by blast+
    then have "prefix (addTrailingSlash dir) (addTrailingSlash dir')
        \<or> prefix (addTrailingSlash dir') (addTrailingSlash dir)"
      by (rule prefix_same_cases)
    with apart show False
      by blast
  qed
  with begins walkEntries_File walkEntries_Dir show ?thesis
    by blast
qed

text \<open>
  The source of a rule, written with its slash, and the destination, written from the
  root: they hold a file of the same name.
\<close>

theorem walk_joined_paths_witness:
  "walk syncTree ''src/'' = Inr [''src/a.txt'']
   \<and> walk syncTree ''/dest'' = Inr [''/dest/a.txt'', ''/dest/b.txt'']
   \<and> prefix ''src/'' ''src/a.txt''
   \<and> prefix ''/dest'' ''/dest/a.txt''
   \<and> set [''src/a.txt''] \<inter> set [''/dest/a.txt'', ''/dest/b.txt''] = {}"
proof -
  have tree: "properTree syncTree"
    by (simp add: syncTree_def properName_def)
  have src: "walk syncTree ''src/'' = Inr [''src/a.txt'']"
    and dest: "walk syncTree ''/dest'' = Inr [''/dest/a.txt'', ''/dest/b.txt'']"
    by (simp_all add: walk_def lstat_def resolve_def syncTree_def path_join_def
        path_normalize_def Let_def)
  have normal: "path_normalize ''src/'' = ''src/''" "path_normalize ''/dest'' = ''/dest''"
    by (simp_all add: path_normalize_def Let_def)
  have apart: "\<not> prefix (addTrailingSlash ''src/'') (addTrailingSlash ''/dest'')"
    "\<not> prefix (addTrailingSlash ''/dest'') (addTrailingSlash ''src/'')"
    by (simp_all add: addTrailingSlash_def suffix_slash)
  have "''src/'' \<noteq> ''.''" "''src/'' \<noteq> ''./''"
    by simp_all
  note fact = walk_joined_paths [OF tree normal(1) this src]
  from fact have "\<forall>p\<in>set [''src/a.txt'']. prefix ''src/'' p"
    by blast
  moreover from fact tree normal(2) dest apart
  have "set [''src/a.txt''] \<inter> set [''/dest/a.txt'', ''/dest/b.txt''] = {}"
    by auto
  ultimately show ?thesis
    using src dest by simp
qed

text \<open>
  Claim C9 as stated fails for a directory that is not written in normal form, for the
  working directory and for a directory inside another: the listings of \<open>./src\<close>, of
  \<open>.\<close> and of \<open>./\<close> hold \<open>src/a.txt\<close>, which begins with none of them, and the listings
  of \<open>src\<close> and of \<open>src/docs\<close> both hold \<open>src/docs/guide.md\<close>.
\<close>

theorem walk_joined_paths_counterexample:
  "walk docsTree ''./src'' = Inr [''src/a.txt'', ''src/docs/guide.md'']
   \<and> \<not> prefix ''./src'' ''src/a.txt''
   \<and> walk docsTree ''.'' = Inr [''src/a.txt'', ''src/docs/guide.md'']
   \<and> \<not> prefix ''.'' ''src/a.txt''
   \<and> walk docsTree ''./'' = Inr [''src/a.txt'', ''src/docs/guide.md'']
   \<and> \<not> prefix ''./'' ''src/a.txt''
   \<and> walk docsTree ''src'' = Inr [''src/a.txt'', ''src/docs/guide.md'']
   \<and> walk docsTree ''src/docs'' = Inr [''src/docs/guide.md'']
   \<and> ''src'' \<noteq> ''src/docs''
   \<and> ''src/docs/guide.md'' \<in> set [''src/a.txt'', ''src/docs/guide.md''] \<inter> set [''src/docs/guide.md'']"
  by (simp add: walk_def lstat_def resolve_def docsTree_def path_join_def path_normalize_def
      Let_def)

end
